theory Spec2Isabelle
  imports Complex_Main "HOL-Library.Sublist"
begin

section \<open>Data model\<close>

text \<open>
  The program is a browser application (React, TypeScript). Its values are modelled as
  the code has them at run time:
  \<^item> a JavaScript string is a \<open>string\<close>; a character stands for one code unit below 256
    (so \<open>CHR 0xA0\<close> is the no-break space and \<open>CHR 0xB0\<close> the degree sign);
  \<^item> a JavaScript number is a \<open>rat\<close>: every finite double is a rational, \<open>-0\<close> and \<open>0\<close>
    coincide, and \<open>NaN\<close> and the infinities are left out;
  \<^item> a value that \<open>JSON.parse\<close> returns is a \<open>json\<close>; \<open>undefined\<close> is \<open>None\<close> of
    \<open>json option\<close>;
  \<^item> a thrown value is an \<open>error\<close>, and a call that may throw returns \<open>error + 'a\<close>.
\<close>

datatype error = Error string

datatype json =
    JNull
  | JBool bool
  | JNum rat
  | JStr string
  | JArr "json list"
  | JObj "(string \<times> json) list"

text \<open>\<open>src/types.ts\<close>: the enum \<open>ProcessingStatus\<close>.\<close>

datatype ProcessingStatus = IDLE | PROCESSING | COMPLETED | ERROR

text \<open>
  A browser \<open>File\<close>: the code reads \<open>file.name\<close> and \<open>file.type\<close>; the bytes are only
  read through a \<open>FileReader\<close>.
\<close>

record File =
  name :: string
  ftype :: string
  bytes :: string

text \<open>
  \<open>src/App.tsx\<close>: the interface \<open>QueueItem\<close>. Its fields \<open>file\<close> and \<open>id\<close> are
  \<open>qfile\<close> and \<open>qid\<close> here (\<open>file\<close> is a keyword and \<open>id\<close> the identity function).
\<close>

record QueueItem =
  qfile :: File
  qid :: string
  preview :: string

section \<open>Chunking (App.tsx, handleProcessQueue, lines 61-64)\<close>

definition BATCH_SIZE :: nat where
  "BATCH_SIZE = 10"

text \<open>\<open>Array.prototype.slice(a, b)\<close> for \<open>0 \<le> a \<le> b\<close>: both ends are clamped to the length.\<close>

definition slice :: "'a list \<Rightarrow> nat \<Rightarrow> nat \<Rightarrow> 'a list" where
  "slice xs a b = take (b - a) (drop a xs)"

text \<open>
  \<^verbatim>\<open>for (let i = 0; i < itemsToProcess.length; i += BATCH_SIZE)
    chunks.push(itemsToProcess.slice(i, i + BATCH_SIZE));\<close>
\<close>

function chunk_loop :: "'a list \<Rightarrow> nat \<Rightarrow> 'a list list \<Rightarrow> 'a list list" where
  "chunk_loop itemsToProcess i chunks =
     (if i < length itemsToProcess
      then chunk_loop itemsToProcess (i + BATCH_SIZE)
             (chunks @ [slice itemsToProcess i (i + BATCH_SIZE)])
      else chunks)"
  by pat_completeness auto
termination
  by (relation "measure (\<lambda>(itemsToProcess, i, chunks). length itemsToProcess - i)")
     (auto simp: BATCH_SIZE_def)

definition make_chunks :: "'a list \<Rightarrow> 'a list list" where
  "make_chunks itemsToProcess = chunk_loop itemsToProcess 0 []"

declare chunk_loop.simps [simp del]

section \<open>JavaScript values as the code reads them\<close>

text \<open>Truthiness, as \<open>||\<close> tests it.\<close>

fun truthy :: "json \<Rightarrow> bool" where
  "truthy JNull = False"
| "truthy (JBool b) = b"
| "truthy (JNum x) = (x \<noteq> 0)"
| "truthy (JStr s) = (s \<noteq> [])"
| "truthy (JArr xs) = True"
| "truthy (JObj kvs) = True"

text \<open>\<open>a || b\<close>, where \<open>a\<close> may be \<open>undefined\<close>.\<close>

definition js_or :: "json option \<Rightarrow> json \<Rightarrow> json" where
  "js_or a b = (case a of None \<Rightarrow> b | Some v \<Rightarrow> if truthy v then v else b)"

text \<open>
  \<open>v?.key\<close> for one of the keys the code reads (\<open>address\<close>, \<open>latitude\<close>, \<open>longitude\<close>,
  \<open>date\<close>, \<open>time\<close>): \<open>undefined\<close> when \<open>v\<close> is \<open>undefined\<close> or \<open>null\<close>, the property of
  an object, and \<open>undefined\<close> on every other value (no prototype has these keys). An object
  that \<open>JSON.parse\<close> built has each key once.
\<close>

definition opt_prop :: "json option \<Rightarrow> string \<Rightarrow> json option" where
  "opt_prop v key = (case v of Some (JObj kvs) \<Rightarrow> map_of kvs key | _ \<Rightarrow> None)"

text \<open>\<open>xs[i]\<close>: \<open>undefined\<close> past the end.\<close>

definition nth_opt :: "'a list \<Rightarrow> nat \<Rightarrow> 'a option" where
  "nth_opt xs i = (if i < length xs then Some (xs ! i) else None)"

text \<open>A string or \<open>undefined\<close> used as a condition: false when \<open>undefined\<close> or empty.\<close>

definition truthy_str :: "string option \<Rightarrow> bool" where
  "truthy_str s = (case s of None \<Rightarrow> False | Some t \<Rightarrow> t \<noteq> [])"

text \<open>\<open>s.split(c)\<close> for a one-character separator: never empty, and the empty string gives
  one empty piece.\<close>

fun split_on :: "char \<Rightarrow> string \<Rightarrow> string list" where
  "split_on c [] = [[]]"
| "split_on c (x # xs) =
     (if x = c then [] # split_on c xs
      else (case split_on c xs of
              [] \<Rightarrow> [[x]]
            | w # ws \<Rightarrow> (x # w) # ws))"

text \<open>\<open>xs.join(sep)\<close> on strings.\<close>

fun join :: "string \<Rightarrow> string list \<Rightarrow> string" where
  "join sep [] = []"
| "join sep [x] = x"
| "join sep (x # y # ys) = x @ sep @ join sep (y # ys)"

section \<open>Results and application state (types.ts, App.tsx)\<close>

text \<open>
  \<open>src/types.ts\<close>: \<open>ProcessedImage\<close> (with the fields of \<open>ExtractedLocation\<close>; its optional
  \<open>error\<close> is never written nor read). TypeScript's field types are not checked at run
  time, so the record leaves them open: the orchestrator stores what \<open>JSON.parse\<close> gave it
  (\<open>ProcessedImage_rt\<close>), and the table reads rows of the declared types
  (\<open>ProcessedImage_ts\<close>: \<open>address: string\<close>, \<open>latitude: number | null\<close>, \<open>date?: string\<close>).
\<close>

record ('s, 'n, 'd) ProcessedImage =
  originalFile :: File
  fileName :: string
  previewUrl :: string
  address :: 's
  latitude :: 'n
  longitude :: 'n
  date :: 'd
  time :: 'd

type_synonym ProcessedImage_rt = "(json, json, json) ProcessedImage"

type_synonym ProcessedImage_ts = "(string, rat option, string option) ProcessedImage"

text \<open>The request part built from one file: \<open>{ inlineData: { data, mimeType } }\<close>.\<close>

record Part =
  data :: "string option"
  mimeType :: string

record Progress =
  processed :: nat
  total :: nat

text \<open>The four \<open>useState\<close> cells of \<open>App\<close>.\<close>

record AppState =
  results :: "ProcessedImage_rt list"
  queue :: "QueueItem list"
  status :: ProcessingStatus
  progress :: Progress

text \<open>
  What a handler does to the outside and to the state, in the order it does it: a call of
  the client, the request the client sends to the model, a released preview URL, and
  each \<open>setState\<close> with the value the cell takes.
\<close>

datatype event =
    ProcessImageBatch "File list"
  | GenerateContent "Part list"
  | RevokeObjectURL string
  | SetStatus ProcessingStatus
  | SetProgress nat nat
  | SetResults "ProcessedImage_rt list"
  | SetQueue "QueueItem list"

section \<open>The extraction client (part_004: services/geminiService)\<close>

text \<open>
  What the client finds around it at one call: \<open>process.env.API_KEY\<close>, what a
  \<open>FileReader\<close> gives for a file (a data URL, or an error), what
  \<open>ai.models.generateContent\<close> does with the request (it throws, or returns a response
  whose \<open>text\<close> is a string or \<open>undefined\<close>), and \<open>JSON.parse\<close>. The prompt, the schema
  and the configuration of the request are constants but for the number of files, which is
  the number of parts.
\<close>

record Env =
  API_KEY :: "string option"
  readAsDataURL :: "File \<Rightarrow> error + string"
  generateContent :: "Part list \<Rightarrow> error + string option"
  JSON_parse :: "string \<Rightarrow> error + json"

text \<open>
  \<open>fileToPart\<close>: the promise rejects on \<open>reader.onerror\<close>; otherwise
  \<open>base64String = reader.result.split(',')[1]\<close>.
\<close>

definition fileToPart :: "Env \<Rightarrow> File \<Rightarrow> error + Part" where
  "fileToPart env f =
     (case readAsDataURL env f of
        Inl e \<Rightarrow> Inl e
      | Inr result \<Rightarrow>
          Inr \<lparr>data = nth_opt (split_on CHR '','' result) 1, mimeType = ftype f\<rparr>)"

text \<open>
  \<open>await Promise.all(files.map(fileToPart))\<close>: the parts in order, or a rejection when a
  file cannot be read (of several failures, the model reports the first in the list).
\<close>

fun all_parts :: "Env \<Rightarrow> File list \<Rightarrow> error + Part list" where
  "all_parts env [] = Inr []"
| "all_parts env (f # fs) =
     (case fileToPart env f of
        Inl e \<Rightarrow> Inl e
      | Inr p \<Rightarrow> (case all_parts env fs of Inl e \<Rightarrow> Inl e | Inr ps \<Rightarrow> Inr (p # ps)))"

text \<open>The object literal of both \<open>files.map(() => ({ ... }))\<close>, up to its address.\<close>

definition placeholder :: "string \<Rightarrow> json" where
  "placeholder addr =
     JObj [(''address'', JStr addr), (''latitude'', JNum 0), (''longitude'', JNum 0),
           (''foundCoordinates'', JBool False), (''date'', JStr []), (''time'', JStr [])]"

definition API_KEY_missing :: error where
  "API_KEY_missing = Error ''API Key is missing. Please check your environment configuration.''"

text \<open>
  \<open>processImageBatch\<close>: the events of the call and what the promise settles to (\<open>Inl\<close>: it
  rejects). The guard on the key and the encoding of the files stand before the \<open>try\<close>;
  the request and \<open>JSON.parse\<close> stand inside it. The constructor of the SDK's client is
  taken not to throw, and \<open>console.error\<close> is not an event of the model.
\<close>

definition processImageBatch :: "Env \<Rightarrow> File list \<Rightarrow> event list \<times> (error + json list)" where
  "processImageBatch env files =
     (if \<not> truthy_str (API_KEY env) then ([], Inl API_KEY_missing)
      else
        (case all_parts env files of
           Inl e \<Rightarrow> ([], Inl e)
         | Inr imageParts \<Rightarrow>
             ([GenerateContent imageParts],
              (case generateContent env imageParts of
                 Inl e \<Rightarrow> Inr (map (\<lambda>f. placeholder ''Error processing image'') files)
               | Inr response_text \<Rightarrow>
                   (if truthy_str response_text then
                      (case JSON_parse env (the response_text) of
                         Inl e \<Rightarrow> Inr (map (\<lambda>f. placeholder ''Error processing image'') files)
                       | Inr parsed \<Rightarrow>
                           (case parsed of
                              JArr items \<Rightarrow> Inr items
                            | _ \<Rightarrow> Inr (map (\<lambda>f. placeholder ''Could not process'') files)))
                    else Inr (map (\<lambda>f. placeholder ''Could not process'') files))))))"

section \<open>The orchestrator (App.tsx)\<close>

text \<open>The body of \<open>chunkItems.map((item, index) => ...)\<close>.\<close>

definition merge_item :: "json list \<Rightarrow> nat \<Rightarrow> QueueItem \<Rightarrow> ProcessedImage_rt" where
  "merge_item batchResults index item =
     (let geminiData = nth_opt batchResults index in
      \<lparr>originalFile = qfile item,
       fileName = name (qfile item),
       previewUrl = preview item,
       address = js_or (opt_prop geminiData ''address'') (JStr ''Processing Error''),
       latitude = js_or (opt_prop geminiData ''latitude'') (JNum 0),
       longitude = js_or (opt_prop geminiData ''longitude'') (JNum 0),
       date = js_or (opt_prop geminiData ''date'') (JStr []),
       time = js_or (opt_prop geminiData ''time'') (JStr [])\<rparr>)"

definition mappedResults :: "QueueItem list \<Rightarrow> json list \<Rightarrow> ProcessedImage_rt list" where
  "mappedResults chunkItems batchResults =
     map (\<lambda>(index, item). merge_item batchResults index item) (enumerate 0 chunkItems)"

text \<open>
  The loop \<open>for (let i = 0; i < chunks.length; i++)\<close> inside the \<open>try\<close>, from chunk \<open>i\<close>
  on: \<open>envs i\<close> is what the \<open>i\<close>-th call of the client finds. A rejection ends the loop
  in the \<open>catch\<close>; the end of the list is the statement after the loop.
\<close>

fun process_chunks ::
  "(nat \<Rightarrow> Env) \<Rightarrow> nat \<Rightarrow> QueueItem list list \<Rightarrow> nat \<Rightarrow> nat \<Rightarrow> AppState \<Rightarrow> event list \<times> AppState"
where
  "process_chunks envs n [] i processedCount st =
     ([SetStatus COMPLETED], st\<lparr>status := COMPLETED\<rparr>)"
| "process_chunks envs n (chunkItems # rest) i processedCount st =
     (let chunkFiles = map qfile chunkItems;
          call = processImageBatch (envs i) chunkFiles
      in case snd call of
           Inl e \<Rightarrow>
             (ProcessImageBatch chunkFiles # fst call @ [SetStatus ERROR], st\<lparr>status := ERROR\<rparr>)
         | Inr batchResults \<Rightarrow>
             (let st' = st\<lparr>results := results st @ mappedResults chunkItems batchResults,
                           progress := \<lparr>processed = processedCount + length chunkItems,
                                        total = n\<rparr>\<rparr>;
                  run = process_chunks envs n rest (Suc i) (processedCount + length chunkItems) st'
              in (ProcessImageBatch chunkFiles # fst call @
                    [SetResults (results st'),
                     SetProgress (processedCount + length chunkItems) n] @ fst run,
                  snd run)))"

text \<open>\<open>handleProcessQueue\<close>: nothing on an empty queue.\<close>

definition handleProcessQueue :: "(nat \<Rightarrow> Env) \<Rightarrow> AppState \<Rightarrow> event list \<times> AppState" where
  "handleProcessQueue envs st =
     (if queue st = [] then ([], st)
      else
        (let itemsToProcess = queue st;
             st0 = st\<lparr>status := PROCESSING,
                      progress := \<lparr>processed = 0, total = length itemsToProcess\<rparr>,
                      results := [],
                      queue := []\<rparr>;
             run = process_chunks envs (length itemsToProcess) (make_chunks itemsToProcess) 0 0 st0
         in ([SetStatus PROCESSING, SetProgress 0 (length itemsToProcess), SetResults [],
              SetQueue []] @ fst run,
             snd run)))"

text \<open>\<open>handleRemoveFromQueue\<close>, \<open>handleClearQueue\<close> and \<open>handleClearResults\<close>.\<close>

definition handleRemoveFromQueue :: "string \<Rightarrow> AppState \<Rightarrow> event list \<times> AppState" where
  "handleRemoveFromQueue i st =
     ((case find (\<lambda>item. qid item = i) (queue st) of
         Some item \<Rightarrow> [RevokeObjectURL (preview item)]
       | None \<Rightarrow> []),
      st\<lparr>queue := filter (\<lambda>item. qid item \<noteq> i) (queue st)\<rparr>)"

definition handleClearQueue :: "AppState \<Rightarrow> event list \<times> AppState" where
  "handleClearQueue st =
     (map (\<lambda>item. RevokeObjectURL (preview item)) (queue st), st\<lparr>queue := []\<rparr>)"

definition handleClearResults :: "AppState \<Rightarrow> event list \<times> AppState" where
  "handleClearResults st =
     (map (\<lambda>r. RevokeObjectURL (previewUrl r)) (results st),
      st\<lparr>results := [], status := IDLE, progress := \<lparr>processed = 0, total = 0\<rparr>\<rparr>)"

section \<open>The results table and its clipboard export (part_000: components/ResultsTable)\<close>

text \<open>
  \<open>Number.prototype.toFixed(6)\<close> on \<open>x \<ge> 0\<close>, as ECMAScript defines it: below \<open>10^21\<close>
  the integer \<open>n\<close> with \<open>n / 10^6\<close> nearest to \<open>x\<close> (the larger of two) is written in decimal
  digits, padded with zeros to seven digits, with a point before the last six. From
  \<open>10^21\<close> on the result is \<open>Number::toString(x)\<close>, a function of the double that is not
  modelled: it is the parameter \<open>Number_toString\<close>.
\<close>

definition digit_char :: "nat \<Rightarrow> char" where
  "digit_char d = char_of (48 + d)"

fun nat_to_string :: "nat \<Rightarrow> string" where
  "nat_to_string n =
     (if n < 10 then [digit_char n]
      else nat_to_string (n div 10) @ [digit_char (n mod 10)])"

declare nat_to_string.simps [simp del]

definition point_before_last6 :: "string \<Rightarrow> string" where
  "point_before_last6 m =
     (let m' = (if length m \<le> 6 then replicate (7 - length m) CHR ''0'' @ m else m);
          k = length m'
      in take (k - 6) m' @ ''.'' @ drop (k - 6) m')"

definition toFixed6 :: "(rat \<Rightarrow> string) \<Rightarrow> rat \<Rightarrow> string" where
  "toFixed6 Number_toString x =
     (if 10 ^ 21 \<le> x then Number_toString x
      else point_before_last6 (nat_to_string (nat \<lfloor>x * 10 ^ 6 + 1 / 2\<rfloor>)))"

datatype coord_type = Lat | Lng

text \<open>
  \<open>formatCoordinate\<close>. The template literal of the source file holds the two code units
  \<open>0xC2\<close> and \<open>0xB0\<close> and a space between the degrees and the direction.
\<close>

definition formatCoordinate :: "(rat \<Rightarrow> string) \<Rightarrow> rat option \<Rightarrow> coord_type \<Rightarrow> string" where
  "formatCoordinate Number_toString v ty =
     (case v of
        None \<Rightarrow> ''--''
      | Some x \<Rightarrow>
          if x = 0 then ''--''
          else
            (let absoluteValue = \<bar>x\<bar>;
                 degrees = toFixed6 Number_toString absoluteValue;
                 direction = (case ty of
                                Lat \<Rightarrow> if 0 \<le> x then ''N'' else ''S''
                              | Lng \<Rightarrow> if 0 \<le> x then ''E'' else ''W'')
             in degrees @ [CHR 0xC2, CHR 0xB0, CHR 0x20] @ direction))"

text \<open>
  \<open>(item.address || '').replace(/[\t\n\r]/g, ' ').trim()\<close>; \<open>trim\<close> removes the white
  space and line terminators of ECMAScript at both ends (those below 256 are the code
  units 9 to 13, 32 and 160).
\<close>

definition is_space :: "char \<Rightarrow> bool" where
  "is_space c = (of_char c \<in> {9, 10, 11, 12, 13, 32, 160 :: nat})"

definition trim :: "string \<Rightarrow> string" where
  "trim s = rev (dropWhile is_space (rev (dropWhile is_space s)))"

definition cleanAddress :: "string \<Rightarrow> string" where
  "cleanAddress a =
     trim (map (\<lambda>c. if c = CHR 0x09 \<or> c = CHR 0x0A \<or> c = CHR 0x0D then CHR 0x20 else c) a)"

text \<open>\<open>s || ''\<close> for an optional string.\<close>

definition or_empty :: "string option \<Rightarrow> string" where
  "or_empty s = (case s of None \<Rightarrow> [] | Some t \<Rightarrow> t)"

definition headers :: "string list" where
  "headers = [''File Name'', ''Address'', ''Latitude'', ''Longitude'', ''Date'', ''Time'']"

text \<open>The body of \<open>sortedData.map(item => ...)\<close> in \<open>handleCopy\<close>.\<close>

definition tsvRow :: "(rat \<Rightarrow> string) \<Rightarrow> ProcessedImage_ts \<Rightarrow> string" where
  "tsvRow Number_toString item =
     (let lat = formatCoordinate Number_toString (latitude item) Lat;
          lng = formatCoordinate Number_toString (longitude item) Lng
      in join [CHR 0x09]
           [fileName item,
            cleanAddress (address item),
            if lat = ''--'' then [] else lat,
            if lng = ''--'' then [] else lng,
            or_empty (date item),
            or_empty (time item)])"

text \<open>
  \<open>handleCopy\<close>: the text written to the clipboard, for the rows \<open>sortedData\<close> of the table
  (the component's data sorted by file name).
\<close>

definition handleCopy :: "(rat \<Rightarrow> string) \<Rightarrow> ProcessedImage_ts list \<Rightarrow> string" where
  "handleCopy Number_toString sortedData =
     join [CHR 0x0A] (join [CHR 0x09] headers # map (tsvRow Number_toString) sortedData)"

section \<open>Reading an exported block back (the specification's round trip)\<close>

text \<open>
  The repository has no reader for the exported block. The reader below follows the
  words of the specification: lines, then six tab-separated cells; a coordinate cell is
  empty (unknown) or decimal degrees followed by a hemisphere letter, of which \<open>S\<close> and
  \<open>W\<close> stand for a negative sign.
\<close>

definition is_digit :: "char \<Rightarrow> bool" where
  "is_digit c = (48 \<le> (of_char c :: nat) \<and> (of_char c :: nat) \<le> 57)"

definition digits_value :: "string \<Rightarrow> nat" where
  "digits_value s = foldl (\<lambda>acc c. 10 * acc + (of_char c - 48)) 0 s"

definition spec_parse_decimal :: "string \<Rightarrow> rat" where
  "spec_parse_decimal s =
     (let num = takeWhile (\<lambda>c. is_digit c \<or> c = CHR ''.'') s;
          ip = takeWhile is_digit num;
          fp = drop (length ip + 1) num
      in rat_of_nat (digits_value (ip @ fp)) / 10 ^ length fp)"

text \<open>A coordinate cell: the signed degrees and the hemisphere letter.\<close>

definition spec_parse_coordinate :: "string \<Rightarrow> (rat \<times> char) option" where
  "spec_parse_coordinate cell =
     (if cell = [] then None
      else Some ((if last cell = CHR ''S'' \<or> last cell = CHR ''W'' then - 1 else 1) *
                   spec_parse_decimal cell,
                 last cell))"

record parsed_row =
  p_fileName :: string
  p_address :: string
  p_latitude :: "(rat \<times> char) option"
  p_longitude :: "(rat \<times> char) option"
  p_date :: string
  p_time :: string

definition spec_parse_row :: "string \<Rightarrow> parsed_row option" where
  "spec_parse_row line =
     (case split_on CHR 0x09 line of
        [fn, ad, la, lo, d, t] \<Rightarrow>
          Some \<lparr>p_fileName = fn, p_address = ad,
                p_latitude = spec_parse_coordinate la, p_longitude = spec_parse_coordinate lo,
                p_date = d, p_time = t\<rparr>
      | _ \<Rightarrow> None)"

definition spec_parse_tsv :: "string \<Rightarrow> parsed_row list option" where
  "spec_parse_tsv block =
     (case split_on CHR 0x0A block of
        [] \<Rightarrow> None
      | header # rows \<Rightarrow>
          if split_on CHR 0x09 header = headers then those (map spec_parse_row rows) else None)"

text \<open>What it means for a coordinate to be recovered from its cell.\<close>

definition coordinate_recovered :: "rat option \<Rightarrow> coord_type \<Rightarrow> (rat \<times> char) option \<Rightarrow> bool" where
  "coordinate_recovered v ty p =
     (case v of
        None \<Rightarrow> p = None
      | Some x \<Rightarrow>
          if x = 0 then p = None
          else (case p of
                  None \<Rightarrow> False
                | Some (y, h) \<Rightarrow>
                    \<bar>y - x\<bar> \<le> 1 / (2 * 10 ^ 6) \<and>
                    h = (case ty of Lat \<Rightarrow> if 0 \<le> x then CHR ''N'' else CHR ''S''
                                  | Lng \<Rightarrow> if 0 \<le> x then CHR ''E'' else CHR ''W'') \<and>
                    (if 0 \<le> x then 0 \<le> y else y \<le> 0)))"

definition no_separator :: "string \<Rightarrow> bool" where
  "no_separator s = (CHR 0x09 \<notin> set s \<and> CHR 0x0A \<notin> set s)"

definition small_coordinate :: "rat option \<Rightarrow> bool" where
  "small_coordinate v = (case v of None \<Rightarrow> True | Some x \<Rightarrow> \<bar>x\<bar> < 10 ^ 21)"

section \<open>Reading a trace\<close>

definition progress_updates :: "event list \<Rightarrow> (nat \<times> nat) list" where
  "progress_updates tr = concat (map (\<lambda>e. case e of SetProgress p t \<Rightarrow> [(p, t)] | _ \<Rightarrow> []) tr)"

definition status_updates :: "event list \<Rightarrow> ProcessingStatus list" where
  "status_updates tr = concat (map (\<lambda>e. case e of SetStatus s \<Rightarrow> [s] | _ \<Rightarrow> []) tr)"

definition client_calls :: "event list \<Rightarrow> File list list" where
  "client_calls tr = concat (map (\<lambda>e. case e of ProcessImageBatch fs \<Rightarrow> [fs] | _ \<Rightarrow> []) tr)"

definition oracle_requests :: "event list \<Rightarrow> Part list list" where
  "oracle_requests tr = concat (map (\<lambda>e. case e of GenerateContent ps \<Rightarrow> [ps] | _ \<Rightarrow> []) tr)"

definition released :: "event list \<Rightarrow> string list" where
  "released tr = concat (map (\<lambda>e. case e of RevokeObjectURL u \<Rightarrow> [u] | _ \<Rightarrow> []) tr)"

text \<open>Where an entry of the result store comes from, and what a queue item gives to it.\<close>

definition entry_source :: "ProcessedImage_rt \<Rightarrow> File \<times> string \<times> string" where
  "entry_source r = (originalFile r, fileName r, previewUrl r)"

definition item_source :: "QueueItem \<Rightarrow> File \<times> string \<times> string" where
  "item_source item = (qfile item, name (qfile item), preview item)"

text \<open>\<open>Array.isArray\<close>, and the JSON types the response schema names.\<close>

definition is_array :: "json \<Rightarrow> bool" where
  "is_array v = (case v of JArr items \<Rightarrow> True | _ \<Rightarrow> False)"





section \<open>Sample inputs\<close>

definition file_a :: File where
  "file_a = \<lparr>name = ''a.png'', ftype = ''image/png'', bytes = ''AAAA''\<rparr>"

definition file_b :: File where
  "file_b = \<lparr>name = ''b.jpg'', ftype = ''image/jpeg'', bytes = ''BBBB''\<rparr>"

text \<open>
  A configured client whose files are readable, whose model answers with the empty JSON
  array, and whose \<open>JSON.parse\<close> knows three texts.
\<close>

definition env_sample :: Env where
  "env_sample =
     \<lparr>API_KEY = Some ''key'',
      readAsDataURL = (\<lambda>f. Inr (''data:'' @ ftype f @ '';base64,'' @ bytes f)),
      generateContent = (\<lambda>ps. Inr (Some ''[]'')),
      JSON_parse = (\<lambda>s. if s = ''[]'' then Inr (JArr [])
                         else if s = ''{}'' then Inr (JObj [])
                         else if s = ''[{}]'' then Inr (JArr [JObj []])
                         else Inl (Error ''SyntaxError''))\<rparr>"

definition item_a :: QueueItem where
  "item_a = \<lparr>qfile = file_a, qid = ''id-a'', preview = ''blob:a''\<rparr>"

definition item_b :: QueueItem where
  "item_b = \<lparr>qfile = file_b, qid = ''id-b'', preview = ''blob:b''\<rparr>"

definition state_sample :: AppState where
  "state_sample =
     \<lparr>results = [], queue = [item_a, item_b], status = IDLE,
      progress = \<lparr>processed = 0, total = 0\<rparr>\<rparr>"

text \<open>The same client when the request fails, and when no file can be read.\<close>

definition env_offline :: Env where
  "env_offline = env_sample\<lparr>generateContent := (\<lambda>ps. Inl (Error ''fetch failed''))\<rparr>"

definition env_unreadable :: Env where
  "env_unreadable = env_sample\<lparr>readAsDataURL := (\<lambda>f. Inl (Error ''NotReadableError''))\<rparr>"

text \<open>The same client when the model answers with a JSON object instead of an array.\<close>

definition env_object :: Env where
  "env_object = env_sample\<lparr>generateContent := (\<lambda>ps. Inr (Some ''{}''))\<rparr>"

text \<open>
  A configured client whose request always throws and whose files cannot be read; and one
  whose model answers with a record of other JSON types than the schema names.
\<close>

definition request_fails :: "Part list \<Rightarrow> error + string option" where
  "request_fails ps = Inl (Error ''fetch failed'')"

definition read_fails :: "File \<Rightarrow> error + string" where
  "read_fails f = Inl (Error ''NotReadableError'')"

definition env_dead :: Env where
  "env_dead = env_sample\<lparr>generateContent := request_fails, readAsDataURL := read_fails\<rparr>"







text \<open>A state with 23 queued files.\<close>

definition queue_23 :: "QueueItem list" where
  "queue_23 =
     map (\<lambda>k. \<lparr>qfile = \<lparr>name = replicate k CHR ''x'' @ ''.png'', ftype = ''image/png'',
                          bytes = replicate k CHR ''A''\<rparr>,
                qid = replicate k CHR ''i'',
                preview = ''blob:'' @ replicate k CHR ''p''\<rparr>) [0..<23]"

definition state_23 :: AppState where
  "state_23 =
     \<lparr>results = [], queue = queue_23, status = IDLE, progress = \<lparr>processed = 0, total = 0\<rparr>\<rparr>"

text \<open>A client with no credential.\<close>

definition env_no_key :: Env where
  "env_no_key = env_sample\<lparr>API_KEY := None\<rparr>"

text \<open>Sample rows of the table.\<close>

definition row_jakarta :: ProcessedImage_ts where
  "row_jakarta =
     \<lparr>originalFile = file_a, fileName = ''a.png'', previewUrl = ''blob:a'',
      address = ''Jl. Sudirman'', latitude = Some (- 62088 / 10000),
      longitude = Some (1068456 / 10000), date = Some ''2024-05-01'', time = Some ''10:15''\<rparr>"

definition row_unknown :: ProcessedImage_ts where
  "row_unknown =
     \<lparr>originalFile = file_b, fileName = ''b.jpg'', previewUrl = ''blob:b'',
      address = ''Error processing image'', latitude = Some 0, longitude = None,
      date = None, time = Some []\<rparr>"

text \<open>
  A stand-in for \<open>Number::toString\<close>, which the export only calls on a coordinate of
  \<open>10^21\<close> or more; and two rows that differ only in the white space of their address.
\<close>

definition toString_sample :: "rat \<Rightarrow> string" where
  "toString_sample x = []"

definition row_tabbed :: ProcessedImage_ts where
  "row_tabbed = row_jakarta\<lparr>address := [CHR ''a'', CHR 0x09, CHR ''b'']\<rparr>"

definition row_spaced :: ProcessedImage_ts where
  "row_spaced = row_jakarta\<lparr>address := ''a b''\<rparr>"

section \<open>Properties of the chunking\<close>

lemma cnt_step: "i < (L::nat) \<Longrightarrow> (L - i + 9) div 10 = Suc ((L - (i + 10) + 9) div 10)"
proof -
  assume lt: "i < L"
  show ?thesis
  proof (cases "i + 10 \<le> L")
    case True
    then have "L - i + 9 = (L - (i + 10) + 9) + 10" by simp
    then show ?thesis by (simp only: div_add_self2)
  next
    case False
    with lt have "10 \<le> L - i + 9" "L - i + 9 < 20" "L - (i + 10) = 0" by simp_all
    then show ?thesis by simp
  qed
qed

lemma shift_map:
  "map (\<lambda>k. take m (drop (i + m * k) xs)) [0..<Suc n] =
     take m (drop i xs) # map (\<lambda>k. take m (drop (i + m + m * k) xs)) [0..<n]"
proof -
  have "[0..<Suc n] = 0 # map Suc [0..<n]"
    by (simp only: map_Suc_upt upt_conv_Cons [of 0 "Suc n"])
  then show ?thesis
    by (simp only: list.map map_map o_def) (simp add: algebra_simps)
qed

lemma chunk_loop_eq:
  "chunk_loop xs i acc =
     acc @ map (\<lambda>k. take BATCH_SIZE (drop (i + BATCH_SIZE * k) xs))
             [0..<(length xs - i + 9) div BATCH_SIZE]"
proof (induction xs i acc rule: chunk_loop.induct)
  case (1 xs i acc)
  show ?case
  proof (cases "i < length xs")
    case False
    then have "(length xs - i + 9) div BATCH_SIZE = 0"
      by (simp add: BATCH_SIZE_def)
    with False show ?thesis
      by (subst chunk_loop.simps) simp
  next
    case True
    define n where "n = (length xs - (i + BATCH_SIZE) + 9) div BATCH_SIZE"
    have cnt: "(length xs - i + 9) div BATCH_SIZE = Suc n"
      using cnt_step [OF True] unfolding n_def BATCH_SIZE_def .
    have "chunk_loop xs i acc =
        chunk_loop xs (i + BATCH_SIZE) (acc @ [slice xs i (i + BATCH_SIZE)])"
      using True by (subst chunk_loop.simps) simp
    also have "\<dots> = (acc @ [slice xs i (i + BATCH_SIZE)]) @
        map (\<lambda>k. take BATCH_SIZE (drop (i + BATCH_SIZE + BATCH_SIZE * k) xs)) [0..<n]"
      using "1.IH" [OF True] unfolding n_def .
    finally show ?thesis
      unfolding cnt shift_map by (simp add: slice_def)
  qed
qed

lemma make_chunks_eq:
  "make_chunks xs =
     map (\<lambda>k. take BATCH_SIZE (drop (BATCH_SIZE * k) xs)) [0..<(length xs + 9) div BATCH_SIZE]"
  unfolding make_chunks_def chunk_loop_eq by simp

lemma length_make_chunks: "length (make_chunks xs) = (length xs + 9) div BATCH_SIZE"
  by (simp add: make_chunks_eq)

lemma nth_make_chunks:
  "k < length (make_chunks xs) \<Longrightarrow>
     make_chunks xs ! k = take BATCH_SIZE (drop (BATCH_SIZE * k) xs)"
  by (simp add: make_chunks_eq)

lemma concat_blocks:
  "0 < m \<Longrightarrow>
     concat (map (\<lambda>k. take m (drop (i + m * k) xs)) [0..<n]) = take (m * n) (drop i xs)"
proof (induction n arbitrary: i)
  case 0
  then show ?case by simp
next
  case (Suc n)
  have "concat (map (\<lambda>k. take m (drop (i + m * k) xs)) [0..<Suc n]) =
      take m (drop i xs) @ take (m * n) (drop (i + m) xs)"
    unfolding shift_map using Suc.IH [OF Suc.prems, of "i + m"] by simp
  also have "\<dots> = take (m + m * n) (drop i xs)"
    by (simp add: take_add add.commute)
  finally show ?case by simp
qed

lemma concat_make_chunks: "concat (make_chunks xs) = xs"
proof -
  have "length xs \<le> BATCH_SIZE * ((length xs + 9) div BATCH_SIZE)"
    unfolding BATCH_SIZE_def by simp
  moreover have "concat (make_chunks xs) =
      take (BATCH_SIZE * ((length xs + 9) div BATCH_SIZE)) xs"
    using concat_blocks [of BATCH_SIZE 0 xs] by (simp add: make_chunks_eq BATCH_SIZE_def)
  ultimately show ?thesis by simp
qed

lemma ceil_count: "int ((n + 9) div 10) = \<lceil>rat_of_nat n / 10\<rceil>"
proof -
  have "\<lceil>rat_of_nat n / 10\<rceil> = \<lceil>of_int (int n) / (of_int 10 :: rat)\<rceil>" by simp
  also have "\<dots> = - (- int n div 10)" by (rule ceiling_divide_eq_div)
  also have "\<dots> = int ((n + 9) div 10)" by linarith
  finally show ?thesis by simp
qed

lemma chunk_sizes:
  assumes "k < length (make_chunks xs)"
  shows "0 < length (make_chunks xs ! k)"
    and "length (make_chunks xs ! k) \<le> BATCH_SIZE"
    and "Suc k < length (make_chunks xs) \<Longrightarrow> length (make_chunks xs ! k) = BATCH_SIZE"
proof -
  have k: "k < (length xs + 9) div 10"
    using assms by (simp add: length_make_chunks BATCH_SIZE_def)
  then have "10 * k < length xs" by linarith
  then show "0 < length (make_chunks xs ! k)"
    using assms by (simp add: nth_make_chunks BATCH_SIZE_def)
  show "length (make_chunks xs ! k) \<le> BATCH_SIZE"
    using assms by (simp add: nth_make_chunks)
  assume "Suc k < length (make_chunks xs)"
  then have "Suc k < (length xs + 9) div 10"
    by (simp add: length_make_chunks BATCH_SIZE_def)
  then have "10 * k + 10 \<le> length xs" by linarith
  then show "length (make_chunks xs ! k) = BATCH_SIZE"
    using assms by (simp add: nth_make_chunks BATCH_SIZE_def)
qed

text \<open>
  C3. For a queue of \<open>N\<close> items and batch size 10 the chunking loop makes exactly
  \<open>ceil(N / 10)\<close> chunks (none for the empty queue); chunk \<open>k\<close> is the contiguous slice
  \<open>[10 k, 10 k + 10)\<close> of the queue, so it is not empty, has at most 10 items and exactly 10
  unless it is the last one; and the chunks put end to end are the queue itself.
\<close>

theorem chunking_partitions_queue:
  "int (length (make_chunks xs)) = \<lceil>rat_of_nat (length xs) / rat_of_nat BATCH_SIZE\<rceil> \<and>
   (xs = [] \<longrightarrow> make_chunks xs = []) \<and>
   concat (make_chunks xs) = xs \<and>
   (\<forall>k<length (make_chunks xs).
      make_chunks xs ! k = slice xs (BATCH_SIZE * k) (BATCH_SIZE * k + BATCH_SIZE) \<and>
      0 < length (make_chunks xs ! k) \<and>
      length (make_chunks xs ! k) \<le> BATCH_SIZE \<and>
      (Suc k < length (make_chunks xs) \<longrightarrow> length (make_chunks xs ! k) = BATCH_SIZE))"
proof (intro conjI allI impI)
  show "int (length (make_chunks xs)) = \<lceil>rat_of_nat (length xs) / rat_of_nat BATCH_SIZE\<rceil>"
    using ceil_count [of "length xs"] by (simp add: length_make_chunks BATCH_SIZE_def)
  show "make_chunks xs = []" if "xs = []"
    using that by (simp add: make_chunks_eq BATCH_SIZE_def)
  show "concat (make_chunks xs) = xs"
    by (rule concat_make_chunks)
next
  fix k
  assume k: "k < length (make_chunks xs)"
  show "make_chunks xs ! k = slice xs (BATCH_SIZE * k) (BATCH_SIZE * k + BATCH_SIZE)"
    using k by (simp add: nth_make_chunks slice_def)
  show "0 < length (make_chunks xs ! k)"
    by (rule chunk_sizes(1) [OF k])
  show "length (make_chunks xs ! k) \<le> BATCH_SIZE"
    by (rule chunk_sizes(2) [OF k])
  show "length (make_chunks xs ! k) = BATCH_SIZE" if "Suc k < length (make_chunks xs)"
    by (rule chunk_sizes(3) [OF k that])
qed

theorem chunking_partitions_queue_witness:
  "length (make_chunks [1..<24::nat]) = 3 \<and>
   concat (make_chunks [1..<24::nat]) = [1..<24] \<and>
   make_chunks [1..<24::nat] ! 1 = slice [1..<24] 10 20 \<and>
   length (make_chunks [1..<24::nat] ! 1) = 10 \<and>
   make_chunks [1..<24::nat] ! 2 = [21, 22, 23]"
proof -
  note t = chunking_partitions_queue [of "[1..<24::nat]"]
  note at = t [THEN conjunct2, THEN conjunct2, THEN conjunct2, rule_format]
  have len: "length (make_chunks [1..<24::nat]) = 3"
    by code_simp
  have last: "slice [1..<24::nat] 20 30 = [21, 22, 23]"
    by code_simp
  have cc: "concat (make_chunks [1..<24::nat]) = [1..<24]"
    by (rule t [THEN conjunct2, THEN conjunct2, THEN conjunct1])
  have k1: "make_chunks [1..<24::nat] ! 1 = slice [1..<24] 10 20 \<and>
      length (make_chunks [1..<24::nat] ! 1) = 10"
    using at [of 1] len by (auto simp add: BATCH_SIZE_def)
  have k2: "make_chunks [1..<24::nat] ! 2 = [21, 22, 23]"
    using at [of 2] len last by (auto simp add: BATCH_SIZE_def)
  from len cc k1 k2 show ?thesis
    by blast
qed

section \<open>Properties of the client, of traces and of the chunk loop\<close>

lemma all_parts_ok:
  "(\<forall>f\<in>set files. \<exists>u. readAsDataURL env f = Inr u) \<Longrightarrow>
     \<exists>ps. all_parts env files = Inr ps \<and> length ps = length files"
  by (induction files) (auto simp: fileToPart_def)

lemma all_parts_fail:
  "f \<in> set files \<Longrightarrow> readAsDataURL env f = Inl e \<Longrightarrow> \<exists>e'. all_parts env files = Inl e'"
  by (induction files) (auto simp: fileToPart_def split: sum.splits)

lemma client_events:
  "fst (processImageBatch env files) = [] \<or>
   (\<exists>ps. fst (processImageBatch env files) = [GenerateContent ps])"
  by (simp add: processImageBatch_def split: sum.splits)

lemma client_returns:
  assumes "truthy_str (API_KEY env)" "all_parts env files = Inr ps"
  shows "\<exists>rs. snd (processImageBatch env files) = Inr rs"
  using assms by (simp add: processImageBatch_def split: sum.splits json.splits)


lemma client_no_calls [simp]: "client_calls (fst (processImageBatch env files)) = []"
  using client_events [of env files] by (auto simp: client_calls_def)

lemma client_no_status [simp]: "status_updates (fst (processImageBatch env files)) = []"
  using client_events [of env files] by (auto simp: status_updates_def)

lemma client_no_progress [simp]: "progress_updates (fst (processImageBatch env files)) = []"
  using client_events [of env files] by (auto simp: progress_updates_def)

lemma client_no_results [simp]: "SetResults rs \<notin> set (fst (processImageBatch env files))"
  using client_events [of env files] by auto

lemma client_calls_append [simp]: "client_calls (a @ b) = client_calls a @ client_calls b"
  by (simp add: client_calls_def)

lemma status_updates_append [simp]: "status_updates (a @ b) = status_updates a @ status_updates b"
  by (simp add: status_updates_def)

lemma progress_updates_append [simp]:
  "progress_updates (a @ b) = progress_updates a @ progress_updates b"
  by (simp add: progress_updates_def)

lemma client_calls_Cons [simp]:
  "client_calls (e # es) = (case e of ProcessImageBatch fs \<Rightarrow> [fs] | _ \<Rightarrow> []) @ client_calls es"
  by (simp add: client_calls_def)

lemma status_updates_Cons [simp]:
  "status_updates (e # es) = (case e of SetStatus s \<Rightarrow> [s] | _ \<Rightarrow> []) @ status_updates es"
  by (simp add: status_updates_def)

lemma progress_updates_Cons [simp]:
  "progress_updates (e # es) = (case e of SetProgress p t \<Rightarrow> [(p, t)] | _ \<Rightarrow> []) @ progress_updates es"
  by (simp add: progress_updates_def)

lemma trace_Nil [simp]: "client_calls [] = []" "status_updates [] = []" "progress_updates [] = []"
  by (simp_all add: client_calls_def status_updates_def progress_updates_def)

lemma process_chunks_queue: "queue (snd (process_chunks envs n cs i pc st)) = queue st"
  by (induction cs arbitrary: i pc st) (auto simp: Let_def split: sum.splits)

lemma mappedResults_sources: "map entry_source (mappedResults c b) = map item_source c"
proof -
  have "map entry_source (mappedResults c b) = map (\<lambda>p. item_source (snd p)) (enumerate 0 c)"
    by (simp add: mappedResults_def merge_item_def entry_source_def item_source_def
        split_def Let_def)
  also have "\<dots> = map item_source (map snd (enumerate 0 c))"
    by (simp only: map_map o_def)
  also have "\<dots> = map item_source c"
    by simp
  finally show ?thesis .
qed

lemma length_mappedResults [simp]: "length (mappedResults c b) = length c"
  by (simp add: mappedResults_def)



lemma process_chunks_sources:
  "(\<forall>rs. SetResults rs \<in> set (fst (process_chunks envs n cs i pc st)) \<or>
         rs = results (snd (process_chunks envs n cs i pc st)) \<longrightarrow>
      prefix (map entry_source (results st)) (map entry_source rs) \<and>
      prefix (map entry_source rs)
        (map entry_source (results st) @ map item_source (concat cs)))"
proof (induction cs arbitrary: i pc st)
  case Nil
  then show ?case by simp
next
  case (Cons c cs)
  show ?case
  proof (cases "snd (processImageBatch (envs i) (map qfile c))")
    case (Inl e)
    then show ?thesis by (simp add: Let_def)
  next
    case (Inr b)
    let ?st' = "st\<lparr>results := results st @ mappedResults c b,
                    progress := \<lparr>processed = pc + length c, total = n\<rparr>\<rparr>"
    let ?run = "process_chunks envs n cs (Suc i) (pc + length c) ?st'"
    have src: "map entry_source (results ?st') = map entry_source (results st) @ map item_source c"
      by (simp add: mappedResults_sources)
    have tail: "prefix (map entry_source (results st)) (map entry_source rs) \<and>
        prefix (map entry_source rs)
          (map entry_source (results st) @ map item_source (concat (c # cs)))"
      if "SetResults rs \<in> set (fst ?run) \<or> rs = results (snd ?run)" for rs
    proof -
      from Cons.IH [of "Suc i" "pc + length c" ?st'] that
      have "prefix (map entry_source (results ?st')) (map entry_source rs)"
        and "prefix (map entry_source rs)
          (map entry_source (results ?st') @ map item_source (concat cs))"
        by blast+
      then show ?thesis
        unfolding src by (auto dest: append_prefixD)
    qed
    have here: "prefix (map entry_source (results st)) (map entry_source (results ?st')) \<and>
        prefix (map entry_source (results ?st'))
          (map entry_source (results st) @ map item_source (concat (c # cs)))"
      unfolding src by simp
    show ?thesis
      using Inr tail here by (auto simp: Let_def)
  qed
qed

section \<open>Claims about the client\<close>

text \<open>
  C1 (the code departs from the claim). The claim: for a batch of \<open>k\<close> files the client
  returns exactly \<open>k\<close> records, also after a wrong-length response. The code returns the
  parsed array as it is: for two readable files and a model that answers \<open>[]\<close>, the client
  returns no record at all.
\<close>

theorem client_passes_short_array_through:
  "length [file_a, file_b] = 2 \<and>
   processImageBatch env_sample [file_a, file_b] =
     ([GenerateContent [\<lparr>data = Some ''AAAA'', mimeType = ''image/png''\<rparr>,
                         \<lparr>data = Some ''BBBB'', mimeType = ''image/jpeg''\<rparr>]],
      Inr [])"
  by (simp add: processImageBatch_def env_sample_def truthy_str_def fileToPart_def
      file_a_def file_b_def nth_opt_def)

text \<open>
  C2, the claim as stated fails: with the credential present, a file that cannot be read
  makes the call reject (the encoding stands before the \<open>try\<close>), and no placeholder is
  returned.
\<close>

theorem unreadable_file_makes_client_throw:
  "truthy_str (API_KEY env_unreadable) \<and>
   processImageBatch env_unreadable [file_a] = ([], Inl (Error ''NotReadableError''))"
  by (simp add: processImageBatch_def env_unreadable_def env_sample_def truthy_str_def
      fileToPart_def)

text \<open>
  C2, as amended. With the credential present: a file that cannot be read makes the call
  reject before any request is sent. When every file is encoded the call never rejects; a
  request that throws, or a response text that \<open>JSON.parse\<close> rejects, gives one
  \<open>Error processing image\<close> placeholder per file; a response with no text, an empty text,
  or a parsed value that is not an array gives one \<open>Could not process\<close> placeholder per
  file.
\<close>

theorem client_failure_policy:
  assumes key: "truthy_str (API_KEY env)"
  shows "((\<exists>f\<in>set files. \<exists>e. readAsDataURL env f = Inl e) \<longrightarrow>
            (\<exists>e. processImageBatch env files = ([], Inl e))) \<and>
         (\<forall>ps. all_parts env files = Inr ps \<longrightarrow>
            (\<exists>rs. snd (processImageBatch env files) = Inr rs) \<and>
            ((\<exists>e. generateContent env ps = Inl e) \<longrightarrow>
               snd (processImageBatch env files) =
                 Inr (replicate (length files) (placeholder ''Error processing image''))) \<and>
            (\<forall>t. generateContent env ps = Inr (Some t) \<and> t \<noteq> [] \<and>
                 (\<exists>e. JSON_parse env t = Inl e) \<longrightarrow>
               snd (processImageBatch env files) =
                 Inr (replicate (length files) (placeholder ''Error processing image''))) \<and>
            (\<forall>t v. generateContent env ps = Inr (Some t) \<and> t \<noteq> [] \<and>
                 JSON_parse env t = Inr v \<and> \<not> is_array v \<longrightarrow>
               snd (processImageBatch env files) =
                 Inr (replicate (length files) (placeholder ''Could not process''))) \<and>
            (generateContent env ps = Inr None \<or> generateContent env ps = Inr (Some []) \<longrightarrow>
               snd (processImageBatch env files) =
                 Inr (replicate (length files) (placeholder ''Could not process'')))) \<and>
         ((\<forall>f\<in>set files. \<exists>u. readAsDataURL env f = Inr u) \<longrightarrow>
            (\<exists>ps. all_parts env files = Inr ps) \<and>
            (\<exists>rs. snd (processImageBatch env files) = Inr rs))"
proof (intro conjI allI impI)
  assume "\<forall>f\<in>set files. \<exists>u. readAsDataURL env f = Inr u"
  then obtain ps where ps: "all_parts env files = Inr ps"
    using all_parts_ok by blast
  then show "\<exists>ps. all_parts env files = Inr ps"
    by blast
  show "\<exists>rs. snd (processImageBatch env files) = Inr rs"
    by (rule client_returns [OF key ps])
next
  assume "\<exists>f\<in>set files. \<exists>e. readAsDataURL env f = Inl e"
  then obtain e where "all_parts env files = Inl e"
    using all_parts_fail by blast
  then show "\<exists>e. processImageBatch env files = ([], Inl e)"
    using key by (simp add: processImageBatch_def)
next
  fix ps assume ps: "all_parts env files = Inr ps"
  show "\<exists>rs. snd (processImageBatch env files) = Inr rs"
    by (rule client_returns [OF key ps])
  show "snd (processImageBatch env files) =
      Inr (replicate (length files) (placeholder ''Error processing image''))"
    if "\<exists>e. generateContent env ps = Inl e"
    using that key ps by (auto simp: processImageBatch_def map_replicate_const)
  show "snd (processImageBatch env files) =
      Inr (replicate (length files) (placeholder ''Could not process''))"
    if "generateContent env ps = Inr None \<or> generateContent env ps = Inr (Some [])"
    using that key ps by (auto simp: processImageBatch_def map_replicate_const truthy_str_def)
next
  fix ps t assume ps: "all_parts env files = Inr ps"
    and t: "generateContent env ps = Inr (Some t) \<and> t \<noteq> [] \<and> (\<exists>e. JSON_parse env t = Inl e)"
  then show "snd (processImageBatch env files) =
      Inr (replicate (length files) (placeholder ''Error processing image''))"
    using key by (auto simp: processImageBatch_def map_replicate_const truthy_str_def)
next
  fix ps t v assume ps: "all_parts env files = Inr ps"
    and t: "generateContent env ps = Inr (Some t) \<and> t \<noteq> [] \<and> JSON_parse env t = Inr v \<and>
      \<not> is_array v"
  then show "snd (processImageBatch env files) =
      Inr (replicate (length files) (placeholder ''Could not process''))"
    using key
    by (auto simp: processImageBatch_def map_replicate_const truthy_str_def is_array_def
        split: json.splits)
qed

theorem client_failure_policy_witness:
  "truthy_str (API_KEY env_offline) \<and>
   all_parts env_offline [file_a, file_b] =
     Inr [\<lparr>data = Some ''AAAA'', mimeType = ''image/png''\<rparr>,
          \<lparr>data = Some ''BBBB'', mimeType = ''image/jpeg''\<rparr>] \<and>
   generateContent env_offline
     [\<lparr>data = Some ''AAAA'', mimeType = ''image/png''\<rparr>,
      \<lparr>data = Some ''BBBB'', mimeType = ''image/jpeg''\<rparr>] = Inl (Error ''fetch failed'') \<and>
   snd (processImageBatch env_offline [file_a, file_b]) =
     Inr [placeholder ''Error processing image'', placeholder ''Error processing image''] \<and>
   truthy_str (API_KEY env_object) \<and>
   generateContent env_object
     [\<lparr>data = Some ''AAAA'', mimeType = ''image/png''\<rparr>,
      \<lparr>data = Some ''BBBB'', mimeType = ''image/jpeg''\<rparr>] = Inr (Some ''{}'') \<and>
   JSON_parse env_object ''{}'' = Inr (JObj []) \<and> \<not> is_array (JObj []) \<and>
   snd (processImageBatch env_object [file_a, file_b]) =
     Inr [placeholder ''Could not process'', placeholder ''Could not process''] \<and>
   truthy_str (API_KEY env_unreadable) \<and>
   readAsDataURL env_unreadable file_a = Inl (Error ''NotReadableError'') \<and>
   (\<exists>e. processImageBatch env_unreadable [file_a, file_b] = ([], Inl e))"
proof -
  let ?ps = "[\<lparr>data = Some ''AAAA'', mimeType = ''image/png''\<rparr>,
              \<lparr>data = Some ''BBBB'', mimeType = ''image/jpeg''\<rparr>]"
  have key: "truthy_str (API_KEY env_offline)"
    by (simp add: env_offline_def env_sample_def truthy_str_def)
  have ps: "all_parts env_offline [file_a, file_b] = Inr ?ps"
    by (simp add: env_offline_def env_sample_def fileToPart_def file_a_def file_b_def
        nth_opt_def)
  have req: "generateContent env_offline ?ps = Inl (Error ''fetch failed'')"
    by (simp add: env_offline_def)
  note t = client_failure_policy [OF key, of "[file_a, file_b]", THEN conjunct2,
      THEN conjunct1, rule_format, OF ps, THEN conjunct2, THEN conjunct1, rule_format]
  have "snd (processImageBatch env_offline [file_a, file_b]) =
      Inr (replicate (length [file_a, file_b]) (placeholder ''Error processing image''))"
    by (rule t) (use req in blast)
  then have r1: "snd (processImageBatch env_offline [file_a, file_b]) =
      Inr [placeholder ''Error processing image'', placeholder ''Error processing image'']"
    by (simp add: numeral_2_eq_2)
  have key2: "truthy_str (API_KEY env_object)"
    by (simp add: env_object_def env_sample_def truthy_str_def)
  have ps2: "all_parts env_object [file_a, file_b] = Inr ?ps"
    by (simp add: env_object_def env_sample_def fileToPart_def file_a_def file_b_def
        nth_opt_def)
  have req2: "generateContent env_object ?ps = Inr (Some ''{}'')"
    by (simp add: env_object_def)
  have parse2: "JSON_parse env_object ''{}'' = Inr (JObj [])"
    by (simp add: env_object_def env_sample_def)
  have na: "\<not> is_array (JObj [])"
    by (simp add: is_array_def)
  note t2 = client_failure_policy [OF key2, of "[file_a, file_b]", THEN conjunct2,
      THEN conjunct1, rule_format, OF ps2, THEN conjunct2, THEN conjunct2, THEN conjunct2,
      THEN conjunct1, rule_format, of "''{}''" "JObj []"]
  have "snd (processImageBatch env_object [file_a, file_b]) =
      Inr (replicate (length [file_a, file_b]) (placeholder ''Could not process''))"
    by (rule t2) (use req2 parse2 na in simp)
  then have r2: "snd (processImageBatch env_object [file_a, file_b]) =
      Inr [placeholder ''Could not process'', placeholder ''Could not process'']"
    by (simp add: numeral_2_eq_2)
  have key3: "truthy_str (API_KEY env_unreadable)"
    by (simp add: env_unreadable_def env_sample_def truthy_str_def)
  have bad: "readAsDataURL env_unreadable file_a = Inl (Error ''NotReadableError'')"
    by (simp add: env_unreadable_def)
  note t3 = client_failure_policy [OF key3, of "[file_a, file_b]", THEN conjunct1, rule_format]
  have r3: "\<exists>e. processImageBatch env_unreadable [file_a, file_b] = ([], Inl e)"
    by (rule t3) (use bad in auto)
  from key ps req r1 key2 req2 parse2 na r2 key3 bad r3 show ?thesis
    by blast
qed

text \<open>
  C6, the claim as stated fails: with the credential present and a request that always
  throws, a batch with a file that cannot be read makes the call reject, and no record is
  returned.
\<close>

theorem failing_oracle_with_unreadable_file:
  "truthy_str (API_KEY env_dead) \<and> [file_a] \<noteq> [] \<and>
   generateContent env_dead = request_fails \<and>
   request_fails [] = Inl (Error ''fetch failed'') \<and>
   processImageBatch env_dead [file_a] = ([], Inl (Error ''NotReadableError''))"
  by (simp add: processImageBatch_def env_dead_def env_sample_def truthy_str_def
      fileToPart_def request_fails_def read_fails_def)

text \<open>
  C6, as amended. With the credential present and a request that always throws, a
  non-empty batch whose files are all read gets back one record per file, each with
  address \<open>Error processing image\<close>, latitude 0, longitude 0, foundCoordinates false and
  empty date and time.
\<close>

theorem failing_oracle_gives_error_placeholders:
  assumes key: "truthy_str (API_KEY env)"
    and nonempty: "files \<noteq> []"
    and readable: "\<forall>f\<in>set files. \<exists>u. readAsDataURL env f = Inr u"
    and throws: "\<forall>req. \<exists>e. generateContent env req = Inl e"
  shows "\<exists>rs. snd (processImageBatch env files) = Inr rs \<and> length rs = length files \<and>
           (\<forall>r\<in>set rs. r = JObj [(''address'', JStr ''Error processing image''),
                                   (''latitude'', JNum 0), (''longitude'', JNum 0),
                                   (''foundCoordinates'', JBool False),
                                   (''date'', JStr []), (''time'', JStr [])])"
proof -
  obtain ps where ps: "all_parts env files = Inr ps"
    using all_parts_ok [OF readable] by blast
  obtain e where e: "generateContent env ps = Inl e"
    using throws by blast
  have "snd (processImageBatch env files) =
      Inr (map (\<lambda>f. placeholder ''Error processing image'') files)"
    using key ps e by (simp add: processImageBatch_def)
  then show ?thesis
    by (auto simp: placeholder_def)
qed

theorem failing_oracle_gives_error_placeholders_witness:
  "truthy_str (API_KEY env_offline) \<and> [file_a, file_b] \<noteq> [] \<and>
   readAsDataURL env_offline file_a = Inr ''data:image/png;base64,AAAA'' \<and>
   readAsDataURL env_offline file_b = Inr ''data:image/jpeg;base64,BBBB'' \<and>
   (\<exists>rs. snd (processImageBatch env_offline [file_a, file_b]) = Inr rs \<and> length rs = 2 \<and>
      rs ! 1 = JObj [(''address'', JStr ''Error processing image''),
                     (''latitude'', JNum 0), (''longitude'', JNum 0),
                     (''foundCoordinates'', JBool False),
                     (''date'', JStr []), (''time'', JStr [])])"
proof -
  have key: "truthy_str (API_KEY env_offline)"
    by (simp add: env_offline_def env_sample_def truthy_str_def)
  have ra: "readAsDataURL env_offline file_a = Inr ''data:image/png;base64,AAAA''"
    by (simp add: env_offline_def env_sample_def file_a_def)
  have rb: "readAsDataURL env_offline file_b = Inr ''data:image/jpeg;base64,BBBB''"
    by (simp add: env_offline_def env_sample_def file_b_def)
  have readable: "\<forall>f\<in>set [file_a, file_b]. \<exists>u. readAsDataURL env_offline f = Inr u"
    using ra rb by simp
  have throws: "\<forall>req. \<exists>e. generateContent env_offline req = Inl e"
    by (simp add: env_offline_def)
  from failing_oracle_gives_error_placeholders [OF key _ readable throws]
  obtain rs where rs: "snd (processImageBatch env_offline [file_a, file_b]) = Inr rs"
    "length rs = length [file_a, file_b]"
    "\<forall>r\<in>set rs. r = JObj [(''address'', JStr ''Error processing image''),
                            (''latitude'', JNum 0), (''longitude'', JNum 0),
                            (''foundCoordinates'', JBool False),
                            (''date'', JStr []), (''time'', JStr [])]"
    by auto
  from rs(2) have len: "length rs = 2" by simp
  then have "rs ! 1 \<in> set rs" by simp
  with rs(3) have "rs ! 1 = JObj [(''address'', JStr ''Error processing image''),
                            (''latitude'', JNum 0), (''longitude'', JNum 0),
                            (''foundCoordinates'', JBool False),
                            (''date'', JStr []), (''time'', JStr [])]"
    by blast
  with key ra rb rs(1) len show ?thesis
    by blast
qed

section \<open>Claims about the queue\<close>

text \<open>
  C8. In a queue whose ids are pairwise distinct, removing an id that is present deletes
  exactly that item (the items before and after it stay, in order), releases exactly its
  preview URL and leaves the rest of the state alone; clearing the queue empties it and
  releases one preview URL per queued item.
\<close>

theorem queue_removal_and_clearing:
  assumes ids: "distinct (map qid (queue st))"
    and present: "i \<in> set (map qid (queue st))"
  shows "(\<exists>before item after.
            queue st = before @ item # after \<and> qid item = i \<and>
            queue (snd (handleRemoveFromQueue i st)) = before @ after \<and>
            fst (handleRemoveFromQueue i st) = [RevokeObjectURL (preview item)]) \<and>
         length (queue (snd (handleRemoveFromQueue i st))) + 1 = length (queue st) \<and>
         results (snd (handleRemoveFromQueue i st)) = results st \<and>
         status (snd (handleRemoveFromQueue i st)) = status st \<and>
         progress (snd (handleRemoveFromQueue i st)) = progress st \<and>
         queue (snd (handleClearQueue st)) = [] \<and>
         fst (handleClearQueue st) = map (\<lambda>item. RevokeObjectURL (preview item)) (queue st) \<and>
         length (released (fst (handleClearQueue st))) = length (queue st)"
proof -
  from present obtain item where item: "item \<in> set (queue st)" "qid item = i"
    by auto
  then obtain before after where split: "queue st = before @ item # after"
    by (auto simp: in_set_conv_decomp)
  from ids have "qid item \<notin> qid ` set before" "qid item \<notin> qid ` set after"
    unfolding split by auto
  then have nb: "\<forall>x\<in>set before. qid x \<noteq> i" and na: "\<forall>x\<in>set after. qid x \<noteq> i"
    using item(2) by (auto simp: image_iff)
  have f: "filter (\<lambda>x. qid x \<noteq> i) (queue st) = before @ after"
    using nb na item(2) by (simp add: split filter_id_conv)
  have "find (\<lambda>x. qid x = i) (queue st) = Some item"
    using nb item(2) unfolding split by (induction before) auto
  then have ev: "fst (handleRemoveFromQueue i st) = [RevokeObjectURL (preview item)]"
    by (simp add: handleRemoveFromQueue_def)
  have q: "queue (snd (handleRemoveFromQueue i st)) = before @ after"
    by (simp add: handleRemoveFromQueue_def f)
  have "length (released (fst (handleClearQueue st))) = length (queue st)"
    by (simp add: handleClearQueue_def released_def o_def length_concat sum_list_triv)
  moreover have "length (queue (snd (handleRemoveFromQueue i st))) + 1 = length (queue st)"
    by (simp add: q split)
  moreover have "\<exists>before item after.
            queue st = before @ item # after \<and> qid item = i \<and>
            queue (snd (handleRemoveFromQueue i st)) = before @ after \<and>
            fst (handleRemoveFromQueue i st) = [RevokeObjectURL (preview item)]"
    using split item(2) ev q by blast
  ultimately show ?thesis
    by (simp add: handleRemoveFromQueue_def handleClearQueue_def)
qed

theorem queue_removal_and_clearing_witness:
  "distinct (map qid (queue state_sample)) \<and>
   ''id-b'' \<in> set (map qid (queue state_sample)) \<and>
   length (queue (snd (handleRemoveFromQueue ''id-b'' state_sample))) + 1 =
     length (queue state_sample) \<and>
   length (released (fst (handleClearQueue state_sample))) = length (queue state_sample)"
proof -
  have d: "distinct (map qid (queue state_sample))"
    by (simp add: state_sample_def item_a_def item_b_def)
  have p: "''id-b'' \<in> set (map qid (queue state_sample))"
    by (simp add: state_sample_def item_a_def item_b_def)
  note t = queue_removal_and_clearing [OF d p]
  from t have "length (queue (snd (handleRemoveFromQueue ''id-b'' state_sample))) + 1 =
      length (queue state_sample)"
    by blast
  moreover from t have "length (released (fst (handleClearQueue state_sample))) =
      length (queue state_sample)"
    by blast
  ultimately show ?thesis
    using d p by blast
qed

section \<open>Claims about the orchestrator\<close>

lemma make_chunks_nonempty: "xs \<noteq> [] \<Longrightarrow> \<exists>c cs. make_chunks xs = c # cs"
proof -
  assume "xs \<noteq> []"
  then have "0 < length xs" by simp
  then have "0 < (length xs + 9) div 10" by linarith
  then have "0 < length (make_chunks xs)" by (simp add: length_make_chunks BATCH_SIZE_def)
  then show ?thesis by (cases "make_chunks xs") auto
qed

lemma process_chunks_starts:
  "\<exists>more. fst (process_chunks envs n (c # cs) i pc st) = ProcessImageBatch (map qfile c) # more"
  by (cases "snd (processImageBatch (envs i) (map qfile c))") (simp_all add: Let_def)

text \<open>
  C9. A run (a call of \<open>handleProcessQueue\<close> on a non-empty queue) first sets the status,
  the progress, the result store to \<open>[]\<close> and the queue to \<open>[]\<close>, and only then calls the
  client for the first chunk; the queue is empty when the run ends; every value the result
  store takes during the run, and its value at the end, is made of entries merged from a
  prefix of the queue as it was at the start, in order; and what the store held before
  the run has no influence on the run.
\<close>

theorem run_starts_from_empty_store:
  assumes nonempty: "queue st \<noteq> []"
  shows "(\<exists>files more.
            fst (handleProcessQueue envs st) =
              [SetStatus PROCESSING, SetProgress 0 (length (queue st)), SetResults [], SetQueue [],
               ProcessImageBatch files] @ more) \<and>
         queue (snd (handleProcessQueue envs st)) = [] \<and>
         (\<forall>rs. SetResults rs \<in> set (fst (handleProcessQueue envs st)) \<or>
                rs = results (snd (handleProcessQueue envs st)) \<longrightarrow>
            prefix (map entry_source rs) (map item_source (queue st))) \<and>
         handleProcessQueue envs (st\<lparr>results := earlier\<rparr>) = handleProcessQueue envs st"
proof (intro conjI allI impI)
  let ?st0 = "st\<lparr>status := PROCESSING,
                  progress := \<lparr>processed = 0, total = length (queue st)\<rparr>,
                  results := [], queue := []\<rparr>"
  let ?run = "process_chunks envs (length (queue st)) (make_chunks (queue st)) 0 0 ?st0"
  have run: "handleProcessQueue envs st =
      ([SetStatus PROCESSING, SetProgress 0 (length (queue st)), SetResults [], SetQueue []] @
         fst ?run, snd ?run)"
    using nonempty by (simp add: handleProcessQueue_def Let_def)
  obtain c cs where chunks: "make_chunks (queue st) = c # cs"
    using make_chunks_nonempty [OF nonempty] by blast
  obtain more where "fst ?run = ProcessImageBatch (map qfile c) # more"
    unfolding chunks using process_chunks_starts by blast
  then show "\<exists>files more.
      fst (handleProcessQueue envs st) =
        [SetStatus PROCESSING, SetProgress 0 (length (queue st)), SetResults [], SetQueue [],
         ProcessImageBatch files] @ more"
    by (simp add: run)
  show "queue (snd (handleProcessQueue envs st)) = []"
    by (simp add: run process_chunks_queue)
  show "handleProcessQueue envs (st\<lparr>results := earlier\<rparr>) = handleProcessQueue envs st"
    using nonempty by (simp add: handleProcessQueue_def)
  fix rs
  assume "SetResults rs \<in> set (fst (handleProcessQueue envs st)) \<or>
      rs = results (snd (handleProcessQueue envs st))"
  then have "rs = [] \<or> SetResults rs \<in> set (fst ?run) \<or> rs = results (snd ?run)"
    by (auto simp: run)
  then show "prefix (map entry_source rs) (map item_source (queue st))"
  proof
    assume "rs = []"
    then show ?thesis by simp
  next
    assume "SetResults rs \<in> set (fst ?run) \<or> rs = results (snd ?run)"
    with process_chunks_sources [of envs "length (queue st)" "make_chunks (queue st)" 0 0 ?st0]
    have "prefix (map entry_source rs)
        (map entry_source (results ?st0) @ map item_source (concat (make_chunks (queue st))))"
      by blast
    then show ?thesis
      by (simp add: concat_make_chunks)
  qed
qed

theorem run_starts_from_empty_store_witness:
  "queue state_sample \<noteq> [] \<and>
   queue (snd (handleProcessQueue (\<lambda>i. env_sample) state_sample)) = [] \<and>
   prefix (map entry_source (results (snd (handleProcessQueue (\<lambda>i. env_sample) state_sample))))
     (map item_source (queue state_sample)) \<and>
   handleProcessQueue (\<lambda>i. env_sample) (state_sample\<lparr>results := [merge_item [] 0 item_b]\<rparr>) =
     handleProcessQueue (\<lambda>i. env_sample) state_sample"
proof -
  have ne: "queue state_sample \<noteq> []"
    by (simp add: state_sample_def)
  note t = run_starts_from_empty_store [OF ne, of "\<lambda>i. env_sample" "[merge_item [] 0 item_b]"]
  from t have "queue (snd (handleProcessQueue (\<lambda>i. env_sample) state_sample)) = []"
    by blast
  moreover from t have "prefix
      (map entry_source (results (snd (handleProcessQueue (\<lambda>i. env_sample) state_sample))))
      (map item_source (queue state_sample))"
    by blast
  moreover from t have
    "handleProcessQueue (\<lambda>i. env_sample) (state_sample\<lparr>results := [merge_item [] 0 item_b]\<rparr>) =
       handleProcessQueue (\<lambda>i. env_sample) state_sample"
    by blast
  ultimately show ?thesis
    using ne by blast
qed























lemma make_chunks_23:
  assumes "length q = 23"
  shows "make_chunks q = [take 10 q, take 10 (drop 10 q), take 10 (drop 20 q)]"
proof -
  have "[0..<(23 + 9) div 10] = [0, 1, 2::nat]"
    by (simp add: upt_rec)
  then show ?thesis
    using assms by (simp add: make_chunks_eq BATCH_SIZE_def)
qed

lemma client_events_silent:
  assumes "processImageBatch env files = (ev, r)"
  shows "progress_updates ev = []" and "status_updates ev = []" and "client_calls ev = []"
proof -
  have "ev = fst (processImageBatch env files)"
    by (simp add: assms)
  then show "progress_updates ev = []" and "status_updates ev = []" and "client_calls ev = []"
    by simp_all
qed

lemma env_sample_returns: "\<exists>r. snd (processImageBatch env_sample files) = Inr r"
proof -
  have key: "truthy_str (API_KEY env_sample)"
    by (simp add: env_sample_def truthy_str_def)
  have "\<forall>f\<in>set files. \<exists>u. readAsDataURL env_sample f = Inr u"
    by (simp add: env_sample_def)
  then obtain ps where "all_parts env_sample files = Inr ps"
    using all_parts_ok by blast
  then show ?thesis
    by (rule client_returns [OF key])
qed


lemma nth_mappedResults:
  "j < length c \<Longrightarrow> mappedResults c b ! j = merge_item b j (c ! j)"
  by (simp add: mappedResults_def nth_enumerate_eq)

text \<open>
  C4. On a queue of 23 files, when the three calls of the client that the run makes
  succeed, the run makes the three chunks of sizes 10, 10 and 3 and calls the client for
  them one after the other; the merged entries of a chunk (one per item of the chunk, the
  \<open>j\<close>-th merged from the \<open>j\<close>-th item and the \<open>j\<close>-th record of the call) are put into the
  result store, and the progress is updated, before the client is called for the next
  chunk; after its initialisation to \<open>{0, 23}\<close> the progress takes the values \<open>{10, 23}\<close>,
  \<open>{20, 23}\<close>, \<open>{23, 23}\<close>; the status goes from \<open>PROCESSING\<close> to \<open>COMPLETED\<close>; and the store
  ends with 23 entries, one per queued file, in the order of the queue.
\<close>

theorem run_of_23_files:
  assumes n: "length (queue st) = 23"
    and ok: "\<forall>i<3. \<exists>r. snd (processImageBatch (envs i)
                              (map qfile (make_chunks (queue st) ! i))) = Inr r"
  shows "\<exists>ev0 r0 ev1 r1 ev2 r2 m0 m1 m2.
     processImageBatch (envs 0) (map qfile (slice (queue st) 0 10)) = (ev0, Inr r0) \<and>
     processImageBatch (envs 1) (map qfile (slice (queue st) 10 20)) = (ev1, Inr r1) \<and>
     processImageBatch (envs 2) (map qfile (slice (queue st) 20 30)) = (ev2, Inr r2) \<and>
     m0 = mappedResults (slice (queue st) 0 10) r0 \<and>
     m1 = mappedResults (slice (queue st) 10 20) r1 \<and>
     m2 = mappedResults (slice (queue st) 20 30) r2 \<and>
     make_chunks (queue st) =
       [slice (queue st) 0 10, slice (queue st) 10 20, slice (queue st) 20 30] \<and>
     map length (make_chunks (queue st)) = [10, 10, 3] \<and>
     fst (handleProcessQueue envs st) =
       [SetStatus PROCESSING, SetProgress 0 23, SetResults [], SetQueue [],
        ProcessImageBatch (map qfile (slice (queue st) 0 10))] @ ev0 @
       [SetResults m0, SetProgress 10 23,
        ProcessImageBatch (map qfile (slice (queue st) 10 20))] @ ev1 @
       [SetResults (m0 @ m1), SetProgress 20 23,
        ProcessImageBatch (map qfile (slice (queue st) 20 30))] @ ev2 @
       [SetResults (m0 @ m1 @ m2), SetProgress 23 23, SetStatus COMPLETED] \<and>
     progress_updates (fst (handleProcessQueue envs st)) = [(0, 23), (10, 23), (20, 23), (23, 23)] \<and>
     status_updates (fst (handleProcessQueue envs st)) = [PROCESSING, COMPLETED] \<and>
     snd (handleProcessQueue envs st) =
       st\<lparr>status := COMPLETED, progress := \<lparr>processed = 23, total = 23\<rparr>,
          results := m0 @ m1 @ m2, queue := []\<rparr> \<and>
     length m0 = 10 \<and> length m1 = 10 \<and> length m2 = 3 \<and>
     (\<forall>j<10. m0 ! j = merge_item r0 j (queue st ! j)) \<and>
     (\<forall>j<10. m1 ! j = merge_item r1 j (queue st ! (10 + j))) \<and>
     (\<forall>j<3. m2 ! j = merge_item r2 j (queue st ! (20 + j))) \<and>
     map entry_source (m0 @ m1 @ m2) = map item_source (queue st)"
proof -
  let ?q = "queue st"
  let ?c0 = "take 10 ?q" and ?c1 = "take 10 (drop 10 ?q)" and ?c2 = "take 10 (drop 20 ?q)"
  have chunks: "make_chunks ?q = [?c0, ?c1, ?c2]"
    by (rule make_chunks_23 [OF n])
  have "\<exists>r. snd (processImageBatch (envs 0) (map qfile ?c0)) = Inr r"
    using ok [rule_format, of 0] by (simp add: chunks)
  then obtain ev0 r0 where c0: "processImageBatch (envs 0) (map qfile ?c0) = (ev0, Inr r0)"
    by (metis prod.collapse)
  have "\<exists>r. snd (processImageBatch (envs (Suc 0)) (map qfile ?c1)) = Inr r"
    using ok [rule_format, of "Suc 0"] by (simp add: chunks)
  then obtain ev1 r1 where c1: "processImageBatch (envs (Suc 0)) (map qfile ?c1) = (ev1, Inr r1)"
    by (metis prod.collapse)
  have "\<exists>r. snd (processImageBatch (envs (Suc (Suc 0))) (map qfile ?c2)) = Inr r"
    using ok [rule_format, of "Suc (Suc 0)"] by (simp add: chunks)
  then obtain ev2 r2 where
    c2: "processImageBatch (envs (Suc (Suc 0))) (map qfile ?c2) = (ev2, Inr r2)"
    by (metis prod.collapse)
  have idx: "envs 1 = envs (Suc 0)" "envs 2 = envs (Suc (Suc 0))"
    by (simp_all add: numeral_2_eq_2)
  have sl: "slice ?q 0 10 = ?c0" "slice ?q 10 20 = ?c1" "slice ?q 20 30 = ?c2"
    by (simp_all add: slice_def)
  have lens: "length ?c0 = 10" "length ?c1 = 10" "length ?c2 = 3"
    using n by simp_all
  have ne: "?q \<noteq> []"
    using n by auto
  have e0: "progress_updates ev0 = []" "status_updates ev0 = []"
    by (rule client_events_silent [OF c0])+
  have e1: "progress_updates ev1 = []" "status_updates ev1 = []"
    by (rule client_events_silent [OF c1])+
  have e2: "progress_updates ev2 = []" "status_updates ev2 = []"
    by (rule client_events_silent [OF c2])+
  have run: "handleProcessQueue envs st =
      ([SetStatus PROCESSING, SetProgress 0 (length ?q), SetResults [], SetQueue [],
        ProcessImageBatch (map qfile ?c0)] @ ev0 @
       [SetResults (mappedResults ?c0 r0), SetProgress (length ?c0) (length ?q),
        ProcessImageBatch (map qfile ?c1)] @ ev1 @
       [SetResults (mappedResults ?c0 r0 @ mappedResults ?c1 r1),
        SetProgress (length ?c0 + length ?c1) (length ?q),
        ProcessImageBatch (map qfile ?c2)] @ ev2 @
       [SetResults (mappedResults ?c0 r0 @ mappedResults ?c1 r1 @ mappedResults ?c2 r2),
        SetProgress (length ?c0 + length ?c1 + length ?c2) (length ?q), SetStatus COMPLETED],
       st\<lparr>status := COMPLETED,
          progress := \<lparr>processed = length ?c0 + length ?c1 + length ?c2, total = length ?q\<rparr>,
          results := mappedResults ?c0 r0 @ mappedResults ?c1 r1 @ mappedResults ?c2 r2,
          queue := []\<rparr>)"
    using ne
    by (simp add: handleProcessQueue_def Let_def chunks c0 c1 c2 del: length_take length_drop)
  have ml: "length (mappedResults ?c0 r0) = 10" "length (mappedResults ?c1 r1) = 10"
    "length (mappedResults ?c2 r2) = 3"
    using n by simp_all
  have m0: "\<forall>j<10. mappedResults ?c0 r0 ! j = merge_item r0 j (?q ! j)"
    using n by (simp add: nth_mappedResults)
  have m1: "\<forall>j<10. mappedResults ?c1 r1 ! j = merge_item r1 j (?q ! (10 + j))"
    using n by (simp add: nth_mappedResults)
  have m2: "\<forall>j<3. mappedResults ?c2 r2 ! j = merge_item r2 j (?q ! (20 + j))"
    using n by (simp add: nth_mappedResults)
  have "map item_source ?c0 @ map item_source ?c1 @ map item_source ?c2 =
      map item_source (concat (make_chunks ?q))"
    by (simp only: chunks concat.simps map_append append_Nil2)
  then have src: "map entry_source
      (mappedResults ?c0 r0 @ mappedResults ?c1 r1 @ mappedResults ?c2 r2) = map item_source ?q"
    by (simp only: map_append mappedResults_sources concat_make_chunks)
  have main: "processImageBatch (envs 0) (map qfile ?c0) = (ev0, Inr r0) \<and>
     processImageBatch (envs 1) (map qfile ?c1) = (ev1, Inr r1) \<and>
     processImageBatch (envs 2) (map qfile ?c2) = (ev2, Inr r2) \<and>
     mappedResults ?c0 r0 = mappedResults ?c0 r0 \<and>
     mappedResults ?c1 r1 = mappedResults ?c1 r1 \<and>
     mappedResults ?c2 r2 = mappedResults ?c2 r2 \<and>
     make_chunks ?q = [?c0, ?c1, ?c2] \<and>
     map length (make_chunks ?q) = [10, 10, 3] \<and>
     fst (handleProcessQueue envs st) =
       [SetStatus PROCESSING, SetProgress 0 23, SetResults [], SetQueue [],
        ProcessImageBatch (map qfile ?c0)] @ ev0 @
       [SetResults (mappedResults ?c0 r0), SetProgress 10 23,
        ProcessImageBatch (map qfile ?c1)] @ ev1 @
       [SetResults (mappedResults ?c0 r0 @ mappedResults ?c1 r1), SetProgress 20 23,
        ProcessImageBatch (map qfile ?c2)] @ ev2 @
       [SetResults (mappedResults ?c0 r0 @ mappedResults ?c1 r1 @ mappedResults ?c2 r2),
        SetProgress 23 23, SetStatus COMPLETED] \<and>
     progress_updates (fst (handleProcessQueue envs st)) = [(0, 23), (10, 23), (20, 23), (23, 23)] \<and>
     status_updates (fst (handleProcessQueue envs st)) = [PROCESSING, COMPLETED] \<and>
     snd (handleProcessQueue envs st) =
       st\<lparr>status := COMPLETED, progress := \<lparr>processed = 23, total = 23\<rparr>,
          results := mappedResults ?c0 r0 @ mappedResults ?c1 r1 @ mappedResults ?c2 r2,
          queue := []\<rparr>"
    apply (simp only: idx c0 c1 c2 chunks run fst_conv snd_conv)
    apply (simp only: lens n)
    apply (simp add: e0 e1 e2 n)
    done
  show ?thesis
    unfolding sl
    apply (rule exI [of _ ev0], rule exI [of _ r0], rule exI [of _ ev1], rule exI [of _ r1])
    apply (rule exI [of _ ev2], rule exI [of _ r2])
    apply (rule exI [of _ "mappedResults ?c0 r0"], rule exI [of _ "mappedResults ?c1 r1"])
    apply (rule exI [of _ "mappedResults ?c2 r2"])
    using main ml m0 m1 m2 src apply blast
    done
qed

theorem run_of_23_files_witness:
  "length (queue state_23) = 23 \<and>
   map length (make_chunks (queue state_23)) = [10, 10, 3] \<and>
   progress_updates
     (fst (handleProcessQueue (\<lambda>i. if i < 3 then env_sample else env_no_key) state_23)) =
     [(0, 23), (10, 23), (20, 23), (23, 23)] \<and>
   status_updates
     (fst (handleProcessQueue (\<lambda>i. if i < 3 then env_sample else env_no_key) state_23)) =
     [PROCESSING, COMPLETED] \<and>
   status (snd (handleProcessQueue (\<lambda>i. if i < 3 then env_sample else env_no_key) state_23)) =
     COMPLETED \<and>
   length (results
     (snd (handleProcessQueue (\<lambda>i. if i < 3 then env_sample else env_no_key) state_23))) = 23 \<and>
   map entry_source (results
     (snd (handleProcessQueue (\<lambda>i. if i < 3 then env_sample else env_no_key) state_23))) =
     map item_source (queue state_23)"
proof -
  let ?envs = "\<lambda>i::nat. if i < 3 then env_sample else env_no_key"
  have n: "length (queue state_23) = 23"
    by (simp add: state_23_def queue_23_def)
  have ok: "\<forall>i<3. \<exists>r. snd (processImageBatch (?envs i)
      (map qfile (make_chunks (queue state_23) ! i))) = Inr r"
    using env_sample_returns by simp
  from run_of_23_files [OF n ok]
  obtain m0 m1 m2 where
    a: "map length (make_chunks (queue state_23)) = [10, 10, 3]"
    and b: "progress_updates (fst (handleProcessQueue ?envs state_23)) =
      [(0, 23), (10, 23), (20, 23), (23, 23)]"
    and c: "status_updates (fst (handleProcessQueue ?envs state_23)) = [PROCESSING, COMPLETED]"
    and d: "snd (handleProcessQueue ?envs state_23) =
      state_23\<lparr>status := COMPLETED, progress := \<lparr>processed = 23, total = 23\<rparr>,
         results := m0 @ m1 @ m2, queue := []\<rparr>"
    and l: "length m0 = 10" "length m1 = 10" "length m2 = 3"
    and s: "map entry_source (m0 @ m1 @ m2) = map item_source (queue state_23)"
    by (elim exE conjE) (rule that, assumption+)
  have e: "status (snd (handleProcessQueue ?envs state_23)) = COMPLETED"
    by (simp add: d)
  have f: "length (results (snd (handleProcessQueue ?envs state_23))) = 23"
    by (simp add: d l)
  have g: "map entry_source (results (snd (handleProcessQueue ?envs state_23))) =
      map item_source (queue state_23)"
    using s by (simp add: d)
  from n a b c e f g show ?thesis
    by blast
qed


lemma process_chunks_abort:
  assumes "k < length cs"
    and "\<forall>j<k. \<exists>r. snd (processImageBatch (envs (i + j)) (map qfile (cs ! j))) = Inr r"
    and "\<exists>e. snd (processImageBatch (envs (i + k)) (map qfile (cs ! k))) = Inl e"
  shows "client_calls (fst (process_chunks envs n cs i pc st)) = map (map qfile) (take (Suc k) cs) \<and>
         status_updates (fst (process_chunks envs n cs i pc st)) = [ERROR] \<and>
         status (snd (process_chunks envs n cs i pc st)) = ERROR \<and>
         results (snd (process_chunks envs n cs i pc st)) =
           results st @
           concat (map (\<lambda>j. mappedResults (cs ! j)
                          (projr (snd (processImageBatch (envs (i + j)) (map qfile (cs ! j))))))
                    [0..<k])"
  using assms
proof (induction cs arbitrary: i k pc st)
  case Nil
  then show ?case by simp
next
  case (Cons c cs)
  show ?case
  proof (cases k)
    case 0
    with Cons.prems(3) obtain e where "snd (processImageBatch (envs i) (map qfile c)) = Inl e"
      by auto
    with 0 show ?thesis
      by (simp add: Let_def)
  next
    case (Suc k')
    from Cons.prems(2) Suc obtain r where r: "snd (processImageBatch (envs i) (map qfile c)) = Inr r"
      by fastforce
    let ?st' = "st\<lparr>results := results st @ mappedResults c r,
                    progress := \<lparr>processed = pc + length c, total = n\<rparr>\<rparr>"
    have k': "k' < length cs"
      using Cons.prems(1) Suc by simp
    have ok: "\<forall>j<k'. \<exists>r. snd (processImageBatch (envs (Suc i + j)) (map qfile (cs ! j))) = Inr r"
    proof (intro allI impI)
      fix j assume "j < k'"
      then have "Suc j < k" using Suc by simp
      with Cons.prems(2) show "\<exists>r. snd (processImageBatch (envs (Suc i + j)) (map qfile (cs ! j))) = Inr r"
        by fastforce
    qed
    have bad: "\<exists>e. snd (processImageBatch (envs (Suc i + k')) (map qfile (cs ! k'))) = Inl e"
      using Cons.prems(3) Suc by simp
    note ih = Cons.IH [OF k' ok bad, where pc = "pc + length c" and st = ?st']
    have shift: "map (\<lambda>j. mappedResults ((c # cs) ! j)
                    (projr (snd (processImageBatch (envs (i + j)) (map qfile ((c # cs) ! j))))))
                 [0..<Suc k'] =
        mappedResults c r #
        map (\<lambda>j. mappedResults (cs ! j)
                    (projr (snd (processImageBatch (envs (Suc i + j)) (map qfile (cs ! j))))))
                 [0..<k']"
      by (simp add: map_upt_Suc r del: upt_Suc)
    show ?thesis
      unfolding Suc shift using ih r by (simp add: Let_def)
  qed
qed

lemma client_without_key:
  "\<not> truthy_str (API_KEY env) \<Longrightarrow> processImageBatch env files = ([], Inl API_KEY_missing)"
  by (simp add: processImageBatch_def)


lemma env_unreadable_throws:
  "files \<noteq> [] \<Longrightarrow> \<exists>e. snd (processImageBatch env_unreadable files) = Inl e"
proof -
  assume "files \<noteq> []"
  then obtain f where "f \<in> set files" by (cases files) auto
  moreover have "readAsDataURL env_unreadable f = Inl (Error ''NotReadableError'')"
    by (simp add: env_unreadable_def)
  ultimately obtain e where "all_parts env_unreadable files = Inl e"
    using all_parts_fail by blast
  then show ?thesis
    by (simp add: processImageBatch_def env_unreadable_def env_sample_def truthy_str_def)
qed


text \<open>
  C5. When the call of the client for chunk \<open>k\<close> rejects and the calls for all earlier
  chunks returned, the run calls the client for the chunks up to \<open>k\<close> and for no later
  one, the status goes from \<open>PROCESSING\<close> to \<open>ERROR\<close>, and the result store ends with
  exactly the merged entries of the chunks before \<open>k\<close>, in order. In particular, with no
  credential the first call rejects without a request to the model, and the store ends
  empty.
\<close>

theorem run_aborts_on_client_failure:
  "(k < length (make_chunks (queue st)) \<and>
    (\<forall>j<k. \<exists>r. snd (processImageBatch (envs j) (map qfile (make_chunks (queue st) ! j))) = Inr r) \<and>
    (\<exists>e. snd (processImageBatch (envs k) (map qfile (make_chunks (queue st) ! k))) = Inl e) \<longrightarrow>
      client_calls (fst (handleProcessQueue envs st)) =
        map (map qfile) (take (Suc k) (make_chunks (queue st))) \<and>
      status_updates (fst (handleProcessQueue envs st)) = [PROCESSING, ERROR] \<and>
      status (snd (handleProcessQueue envs st)) = ERROR \<and>
      results (snd (handleProcessQueue envs st)) =
        concat (map (\<lambda>j. mappedResults (make_chunks (queue st) ! j)
                       (projr (snd (processImageBatch (envs j)
                                      (map qfile (make_chunks (queue st) ! j))))))
                 [0..<k])) \<and>
   (queue st \<noteq> [] \<and> \<not> truthy_str (API_KEY (envs 0)) \<longrightarrow>
      oracle_requests (fst (handleProcessQueue envs st)) = [] \<and>
      length (client_calls (fst (handleProcessQueue envs st))) = 1 \<and>
      status_updates (fst (handleProcessQueue envs st)) = [PROCESSING, ERROR] \<and>
      status (snd (handleProcessQueue envs st)) = ERROR \<and>
      results (snd (handleProcessQueue envs st)) = [])"
proof (intro conjI impI)
  let ?st0 = "st\<lparr>status := PROCESSING,
                  progress := \<lparr>processed = 0, total = length (queue st)\<rparr>,
                  results := [], queue := []\<rparr>"
  let ?run = "process_chunks envs (length (queue st)) (make_chunks (queue st)) 0 0 ?st0"
  assume h: "k < length (make_chunks (queue st)) \<and>
    (\<forall>j<k. \<exists>r. snd (processImageBatch (envs j) (map qfile (make_chunks (queue st) ! j))) = Inr r) \<and>
    (\<exists>e. snd (processImageBatch (envs k) (map qfile (make_chunks (queue st) ! k))) = Inl e)"
  then have ne: "queue st \<noteq> []"
    by (auto simp: length_make_chunks BATCH_SIZE_def)
  have run: "handleProcessQueue envs st =
      ([SetStatus PROCESSING, SetProgress 0 (length (queue st)), SetResults [], SetQueue []] @
         fst ?run, snd ?run)"
    using ne by (simp add: handleProcessQueue_def Let_def)
  from h have "k < length (make_chunks (queue st))"
    and "\<forall>j<k. \<exists>r. snd (processImageBatch (envs (0 + j))
            (map qfile (make_chunks (queue st) ! j))) = Inr r"
    and "\<exists>e. snd (processImageBatch (envs (0 + k))
            (map qfile (make_chunks (queue st) ! k))) = Inl e"
    by simp_all
  note ab = process_chunks_abort [OF this, where n = "length (queue st)" and pc = 0 and st = ?st0]
  show "client_calls (fst (handleProcessQueue envs st)) =
      map (map qfile) (take (Suc k) (make_chunks (queue st)))"
    using ab by (simp add: run)
  show "status_updates (fst (handleProcessQueue envs st)) = [PROCESSING, ERROR]"
    using ab by (simp add: run)
  show "status (snd (handleProcessQueue envs st)) = ERROR"
    using ab by (simp add: run)
  show "results (snd (handleProcessQueue envs st)) =
      concat (map (\<lambda>j. mappedResults (make_chunks (queue st) ! j)
                     (projr (snd (processImageBatch (envs j)
                                    (map qfile (make_chunks (queue st) ! j))))))
               [0..<k])"
    using ab by (simp add: run)
next
  assume h: "queue st \<noteq> [] \<and> \<not> truthy_str (API_KEY (envs 0))"
  then obtain c cs where chunks: "make_chunks (queue st) = c # cs"
    using make_chunks_nonempty by blast
  have call: "processImageBatch (envs 0) (map qfile c) = ([], Inl API_KEY_missing)"
    using h by (simp add: client_without_key)
  have run: "handleProcessQueue envs st =
      ([SetStatus PROCESSING, SetProgress 0 (length (queue st)), SetResults [], SetQueue [],
        ProcessImageBatch (map qfile c), SetStatus ERROR],
       st\<lparr>status := PROCESSING,
          progress := \<lparr>processed = 0, total = length (queue st)\<rparr>,
          results := [], queue := [], status := ERROR\<rparr>)"
    using h by (simp add: handleProcessQueue_def Let_def chunks call)
  show "oracle_requests (fst (handleProcessQueue envs st)) = []"
    by (simp add: run oracle_requests_def)
  show "length (client_calls (fst (handleProcessQueue envs st))) = 1"
    by (simp add: run)
  show "status_updates (fst (handleProcessQueue envs st)) = [PROCESSING, ERROR]"
    by (simp add: run)
  show "status (snd (handleProcessQueue envs st)) = ERROR"
    by (simp add: run)
  show "results (snd (handleProcessQueue envs st)) = []"
    by (simp add: run)
qed


theorem run_aborts_on_client_failure_witness:
  "1 < length (make_chunks (queue state_23)) \<and>
   status (snd (handleProcessQueue (\<lambda>i. if i = 1 then env_unreadable else env_sample) state_23)) =
     ERROR \<and>
   length (client_calls
     (fst (handleProcessQueue (\<lambda>i. if i = 1 then env_unreadable else env_sample) state_23))) = 2 \<and>
   length (results
     (snd (handleProcessQueue (\<lambda>i. if i = 1 then env_unreadable else env_sample) state_23))) = 10 \<and>
   queue state_sample \<noteq> [] \<and> \<not> truthy_str (API_KEY env_no_key) \<and>
   oracle_requests (fst (handleProcessQueue (\<lambda>i. env_no_key) state_sample)) = [] \<and>
   results (snd (handleProcessQueue (\<lambda>i. env_no_key) state_sample)) = []"
proof -
  let ?envs = "\<lambda>i::nat. if i = 1 then env_unreadable else env_sample"
  let ?cs = "make_chunks (queue state_23)"
  have n: "length (queue state_23) = 23"
    by (simp add: state_23_def queue_23_def)
  have len: "length ?cs = 3"
    by (simp add: length_make_chunks n BATCH_SIZE_def)
  then have k: "1 < length ?cs"
    by simp
  have c0: "length (?cs ! 0) = 10"
    using chunk_sizes(3) [of 0 "queue state_23"] len by (simp add: BATCH_SIZE_def)
  have c1: "?cs ! 1 \<noteq> []"
    using chunk_sizes(1) [of 1 "queue state_23"] len by simp
  have before: "\<forall>j<1. \<exists>r. snd (processImageBatch (?envs j) (map qfile (?cs ! j))) = Inr r"
    using env_sample_returns by simp
  have at: "\<exists>e. snd (processImageBatch (?envs 1) (map qfile (?cs ! 1))) = Inl e"
    using env_unreadable_throws [of "map qfile (?cs ! 1)"] c1 by simp
  note t1 = run_aborts_on_client_failure [of 1 state_23 ?envs, THEN conjunct1, rule_format,
      OF conjI [OF k conjI [OF before at]]]
  have a: "status (snd (handleProcessQueue ?envs state_23)) = ERROR"
    using t1 by blast
  have b: "length (client_calls (fst (handleProcessQueue ?envs state_23))) = 2"
    using t1 len by simp
  have c: "length (results (snd (handleProcessQueue ?envs state_23))) = 10"
    using t1 c0 by simp
  have ne: "queue state_sample \<noteq> []"
    by (simp add: state_sample_def)
  have nokey: "\<not> truthy_str (API_KEY env_no_key)"
    by (simp add: env_no_key_def truthy_str_def)
  note t2 = run_aborts_on_client_failure [of 0 state_sample "\<lambda>i. env_no_key", THEN conjunct2,
      rule_format, OF conjI [OF ne nokey]]
  have d: "oracle_requests (fst (handleProcessQueue (\<lambda>i. env_no_key) state_sample)) = []"
    using t2 by blast
  have e: "results (snd (handleProcessQueue (\<lambda>i. env_no_key) state_sample)) = []"
    using t2 by blast
  from k a b c ne nokey d e show ?thesis
    by blast
qed

section \<open>Properties of the clipboard export\<close>

lemma split_on_append_sep:
  "c \<notin> set a \<Longrightarrow> split_on c (a @ c # rest) = a # split_on c rest"
  by (induction a) auto

lemma split_on_no_sep: "c \<notin> set s \<Longrightarrow> split_on c s = [s]"
  by (induction s) auto

lemma split_on_join:
  "xs \<noteq> [] \<Longrightarrow> \<forall>x\<in>set xs. c \<notin> set x \<Longrightarrow> split_on c (join [c] xs) = xs"
proof (induction "[c]" xs rule: join.induct)
  case 1
  then show ?case by simp
next
  case (2 x)
  then show ?case by (simp add: split_on_no_sep)
next
  case (3 x y ys)
  then show ?case by (simp add: split_on_append_sep)
qed

lemma set_join: "set (join sep xs) \<subseteq> set sep \<union> \<Union> (set ` set xs)"
  by (induction sep xs rule: join.induct) auto

lemma of_char_digit_char: "d < 10 \<Longrightarrow> of_char (digit_char d) = 48 + d"
  by (simp add: digit_char_def)

lemma is_digit_digit_char: "d < 10 \<Longrightarrow> is_digit (digit_char d)"
  by (simp add: is_digit_def of_char_digit_char)

lemma nat_to_string_digits: "\<forall>c\<in>set (nat_to_string n). is_digit c"
proof (induction n rule: nat_to_string.induct)
  case (1 n)
  show ?case
  proof (cases "n < 10")
    case True
    then show ?thesis
      by (subst nat_to_string.simps) (simp add: is_digit_digit_char)
  next
    case False
    then show ?thesis
      using "1.IH" by (subst nat_to_string.simps) (simp add: is_digit_digit_char)
  qed
qed

lemma digits_value_snoc: "digits_value (s @ [c]) = 10 * digits_value s + (of_char c - 48)"
  by (simp add: digits_value_def)

lemma digits_value_single: "digits_value [c] = of_char c - 48"
  by (simp add: digits_value_def)

lemma digits_value_nat_to_string: "digits_value (nat_to_string n) = n"
proof (induction n rule: nat_to_string.induct)
  case (1 n)
  show ?case
  proof (cases "n < 10")
    case True
    then show ?thesis
      by (subst nat_to_string.simps) (simp add: digits_value_single of_char_digit_char)
  next
    case False
    then have "digits_value (nat_to_string (n div 10)) = n div 10"
      using "1.IH" by simp
    then show ?thesis
      using False
      by (subst nat_to_string.simps) (simp add: digits_value_snoc of_char_digit_char)
  qed
qed

lemma digits_value_zeros: "digits_value (replicate k CHR ''0'' @ s) = digits_value s"
  by (induction k) (simp_all add: digits_value_def)

lemma is_digit_zero: "is_digit CHR ''0''"
  by (simp add: is_digit_def)

lemma not_digit_point: "\<not> is_digit CHR ''.''"
  by (simp add: is_digit_def)

lemma point_before_last6_shape:
  assumes digits: "\<forall>c\<in>set m. is_digit c"
  shows "\<exists>ip fp. point_before_last6 m = ip @ ''.'' @ fp \<and> length fp = 6 \<and>
           (\<forall>c\<in>set ip. is_digit c) \<and> (\<forall>c\<in>set fp. is_digit c) \<and>
           digits_value (ip @ fp) = digits_value m"
proof -
  define m' where "m' = (if length m \<le> 6 then replicate (7 - length m) CHR ''0'' @ m else m)"
  have len: "7 \<le> length m'"
    by (simp add: m'_def)
  have dig: "\<forall>c\<in>set m'. is_digit c"
    using digits by (auto simp: m'_def is_digit_zero)
  have val: "digits_value m' = digits_value m"
    by (simp add: m'_def digits_value_zeros)
  have shape: "point_before_last6 m = take (length m' - 6) m' @ ''.'' @ drop (length m' - 6) m'"
    by (simp add: point_before_last6_def m'_def Let_def)
  have "length (drop (length m' - 6) m') = 6"
    using len by simp
  moreover have "\<forall>c\<in>set (take (length m' - 6) m'). is_digit c"
    using dig by (meson in_set_takeD)
  moreover have "\<forall>c\<in>set (drop (length m' - 6) m'). is_digit c"
    using dig by (meson in_set_dropD)
  moreover have "digits_value (take (length m' - 6) m' @ drop (length m' - 6) m') = digits_value m"
    by (simp add: val)
  ultimately show ?thesis
    using shape by blast
qed

lemma spec_parse_decimal_render:
  assumes ip: "\<forall>c\<in>set ip. is_digit c" and fp: "\<forall>c\<in>set fp. is_digit c"
    and u: "\<not> is_digit u" "u \<noteq> CHR ''.''"
  shows "spec_parse_decimal (ip @ ''.'' @ fp @ u # rest) =
           rat_of_nat (digits_value (ip @ fp)) / 10 ^ length fp"
proof -
  let ?P = "\<lambda>c. is_digit c \<or> c = CHR ''.''"
  have "takeWhile ?P ((ip @ ''.'' @ fp) @ u # rest) = takeWhile ?P (ip @ ''.'' @ fp)"
    using u by (intro takeWhile_tail) simp
  also have "\<dots> = ip @ ''.'' @ fp"
    using ip fp by (simp add: takeWhile_eq_all_conv)
  finally have num: "takeWhile ?P (ip @ ''.'' @ fp @ u # rest) = ip @ ''.'' @ fp"
    by simp
  have ipart: "takeWhile is_digit (ip @ ''.'' @ fp) = ip"
    using ip by (simp add: not_digit_point)
  show ?thesis
    by (simp only: spec_parse_decimal_def num Let_def ipart) simp
qed

lemma round_close:
  assumes "0 \<le> (x::rat)"
  shows "\<bar>rat_of_nat (nat \<lfloor>x * 10 ^ 6 + 1 / 2\<rfloor>) / 10 ^ 6 - x\<bar> \<le> 1 / (2 * 10 ^ 6)"
proof -
  define n where "n = \<lfloor>x * 10 ^ 6 + 1 / 2\<rfloor>"
  have "0 \<le> x * 10 ^ 6 + 1 / 2"
    using assms by simp
  then have n0: "0 \<le> n"
    unfolding n_def by simp
  then have cast: "rat_of_nat (nat n) = of_int n"
    by simp
  have lo: "of_int n \<le> x * 10 ^ 6 + 1 / 2"
    unfolding n_def by (rule of_int_floor_le)
  have hi: "x * 10 ^ 6 + 1 / 2 < of_int n + 1"
    unfolding n_def by linarith
  have "\<bar>of_int n - x * 10 ^ 6\<bar> \<le> 1 / 2"
    using lo hi by linarith
  then have bound: "\<bar>of_int n - x * 10 ^ 6\<bar> / 10 ^ 6 \<le> (1 / 2) / 10 ^ 6"
    by (simp add: divide_right_mono)
  have eq: "of_int n / 10 ^ 6 - x = (of_int n - x * 10 ^ 6) / 10 ^ 6"
    by (simp add: diff_divide_distrib)
  have "\<bar>of_int n / 10 ^ 6 - x\<bar> = \<bar>of_int n - x * 10 ^ 6\<bar> / 10 ^ 6"
    unfolding eq by (simp only: abs_divide) simp
  with bound show ?thesis
    unfolding n_def [symmetric] cast by simp
qed

lemma toFixed6_shape:
  assumes "0 \<le> x" "x < 10 ^ 21"
  shows "\<exists>ip fp. toFixed6 ts x = ip @ ''.'' @ fp \<and> length fp = 6 \<and>
           (\<forall>c\<in>set ip. is_digit c) \<and> (\<forall>c\<in>set fp. is_digit c) \<and>
           \<bar>rat_of_nat (digits_value (ip @ fp)) / 10 ^ 6 - x\<bar> \<le> 1 / (2 * 10 ^ 6)"
proof -
  let ?n = "nat \<lfloor>x * 10 ^ 6 + 1 / 2\<rfloor>"
  obtain ip fp where s: "point_before_last6 (nat_to_string ?n) = ip @ ''.'' @ fp"
    "length fp = 6" "\<forall>c\<in>set ip. is_digit c" "\<forall>c\<in>set fp. is_digit c"
    "digits_value (ip @ fp) = digits_value (nat_to_string ?n)"
    using point_before_last6_shape [OF nat_to_string_digits] by blast
  have "toFixed6 ts x = ip @ ''.'' @ fp"
    using assms(2) s(1) by (simp add: toFixed6_def)
  moreover have "\<bar>rat_of_nat (digits_value (ip @ fp)) / 10 ^ 6 - x\<bar> \<le> 1 / (2 * 10 ^ 6)"
    unfolding s(5) digits_value_nat_to_string by (rule round_close [OF assms(1)])
  ultimately show ?thesis
    using s(2-4) by blast
qed

lemma is_digit_not_sep: "is_digit c \<Longrightarrow> c \<noteq> CHR 0x09 \<and> c \<noteq> CHR 0x0A"
  by (auto simp: is_digit_def)

lemma formatCoordinate_cell:
  fixes ts :: "rat \<Rightarrow> string" and ty :: coord_type and v :: "rat option"
  assumes small: "small_coordinate v"
  defines "cell \<equiv> (if formatCoordinate ts v ty = ''--'' then [] else formatCoordinate ts v ty)"
  shows "no_separator cell \<and> coordinate_recovered v ty (spec_parse_coordinate cell) \<and>
         ((v = None \<or> v = Some 0) \<longrightarrow> cell = [])"
proof (cases "v = None \<or> v = Some 0")
  case True
  then have "formatCoordinate ts v ty = ''--''"
    by (auto simp: formatCoordinate_def)
  then have "cell = []"
    by (simp add: cell_def)
  with True show ?thesis
    by (auto simp: no_separator_def coordinate_recovered_def spec_parse_coordinate_def)
next
  case False
  then obtain x where v: "v = Some x" and x: "x \<noteq> 0"
    by auto
  from small v have "\<bar>x\<bar> < 10 ^ 21"
    by (simp add: small_coordinate_def)
  then obtain ip fp where s: "toFixed6 ts \<bar>x\<bar> = ip @ ''.'' @ fp" "length fp = 6"
    "\<forall>c\<in>set ip. is_digit c" "\<forall>c\<in>set fp. is_digit c"
    "\<bar>rat_of_nat (digits_value (ip @ fp)) / 10 ^ 6 - \<bar>x\<bar>\<bar> \<le> 1 / (2 * 10 ^ 6)"
    using toFixed6_shape [of "\<bar>x\<bar>" ts] by auto
  define h where "h = (case ty of Lat \<Rightarrow> if 0 \<le> x then CHR ''N'' else CHR ''S''
                                | Lng \<Rightarrow> if 0 \<le> x then CHR ''E'' else CHR ''W'')"
  have fc: "formatCoordinate ts v ty = ip @ ''.'' @ fp @ CHR 0xC2 # [CHR 0xB0, CHR 0x20, h]"
    using x by (simp add: formatCoordinate_def v Let_def s(1) h_def split: coord_type.splits)
  then have cell: "cell = ip @ ''.'' @ fp @ CHR 0xC2 # [CHR 0xB0, CHR 0x20, h]"
    using s(2) by (auto simp: cell_def)
  have hsep: "h \<noteq> CHR 0x09 \<and> h \<noteq> CHR 0x0A"
    by (simp add: h_def split: coord_type.splits)
  have nosep: "no_separator cell"
    using s(3,4) hsep is_digit_not_sep unfolding cell no_separator_def by auto
  have dec: "spec_parse_decimal cell = rat_of_nat (digits_value (ip @ fp)) / 10 ^ 6"
    unfolding cell
    using spec_parse_decimal_render [OF s(3) s(4), of "CHR 0xC2" "[CHR 0xB0, CHR 0x20, h]"] s(2)
    by (simp add: is_digit_def)
  have lastc: "last cell = h"
    by (simp add: cell)
  have hsign: "(h = CHR ''S'' \<or> h = CHR ''W'') \<longleftrightarrow> x < 0"
    by (auto simp: h_def split: coord_type.splits)
  have nonneg: "0 \<le> rat_of_nat (digits_value (ip @ fp)) / 10 ^ 6"
    by simp
  have parsed: "spec_parse_coordinate cell =
      Some ((if x < 0 then - 1 else 1) * (rat_of_nat (digits_value (ip @ fp)) / 10 ^ 6), h)"
  proof -
    have "cell \<noteq> []"
      by (simp add: cell)
    then have "spec_parse_coordinate cell =
        Some ((if last cell = CHR ''S'' \<or> last cell = CHR ''W'' then - 1 else 1) *
                spec_parse_decimal cell, last cell)"
      by (simp add: spec_parse_coordinate_def)
    then show ?thesis
      unfolding lastc dec using hsign by simp
  qed
  have close: "\<bar>(if x < 0 then - 1 else 1) * (rat_of_nat (digits_value (ip @ fp)) / 10 ^ 6) - x\<bar>
      \<le> 1 / (2 * 10 ^ 6)"
    using s(5) by (auto simp: abs_if split: if_splits)
  have sign: "if 0 \<le> x
      then 0 \<le> (if x < 0 then - 1 else 1) * (rat_of_nat (digits_value (ip @ fp)) / 10 ^ 6)
      else (if x < 0 then - 1 else 1) * (rat_of_nat (digits_value (ip @ fp)) / 10 ^ 6) \<le> 0"
    using nonneg by auto
  have "coordinate_recovered v ty (spec_parse_coordinate cell)"
    unfolding parsed coordinate_recovered_def v using x close sign
    by (simp add: h_def)
  with nosep False show ?thesis
    by blast
qed

lemma set_trim: "set (trim s) \<subseteq> set s"
  unfolding trim_def by (auto dest!: set_dropWhileD)

lemma cleanAddress_no_sep: "no_separator (cleanAddress a)"
proof -
  let ?r = "\<lambda>c. if c = CHR 0x09 \<or> c = CHR 0x0A \<or> c = CHR 0x0D then CHR 0x20 else c"
  have "CHR 0x09 \<notin> set (map ?r a)" "CHR 0x0A \<notin> set (map ?r a)"
    by auto
  then show ?thesis
    using set_trim [of "map ?r a"] unfolding no_separator_def cleanAddress_def by blast
qed

lemma those_map_Some: "\<forall>x\<in>set xs. f x = Some (g x) \<Longrightarrow> those (map f xs) = Some (map g xs)"
  by (induction xs) simp_all

lemma tsvRow_cells:
  fixes ts :: "rat \<Rightarrow> string" and r :: ProcessedImage_ts
  assumes "no_separator (fileName r)" "no_separator (or_empty (date r))"
    "no_separator (or_empty (time r))" "small_coordinate (latitude r)"
    "small_coordinate (longitude r)"
  defines "la \<equiv> (if formatCoordinate ts (latitude r) Lat = ''--'' then []
                  else formatCoordinate ts (latitude r) Lat)"
    and "lo \<equiv> (if formatCoordinate ts (longitude r) Lng = ''--'' then []
                  else formatCoordinate ts (longitude r) Lng)"
  shows "split_on CHR 0x09 (tsvRow ts r) =
           [fileName r, cleanAddress (address r), la, lo, or_empty (date r), or_empty (time r)]"
    and "CHR 0x0A \<notin> set (tsvRow ts r)"
proof -
  let ?cells = "[fileName r, cleanAddress (address r), la, lo, or_empty (date r),
      or_empty (time r)]"
  have row: "tsvRow ts r = join [CHR 0x09] ?cells"
    by (simp add: tsvRow_def Let_def la_def lo_def)
  have la: "no_separator la"
    unfolding la_def using formatCoordinate_cell [OF assms(4)] by blast
  have lo: "no_separator lo"
    unfolding lo_def using formatCoordinate_cell [OF assms(5)] by blast
  have all: "\<forall>x\<in>set ?cells. no_separator x"
    using assms(1-3) la lo cleanAddress_no_sep by simp
  then have "\<forall>x\<in>set ?cells. CHR 0x09 \<notin> set x"
    by (simp add: no_separator_def)
  then show "split_on CHR 0x09 (tsvRow ts r) = ?cells"
    unfolding row by (intro split_on_join) simp_all
  have "set (join [CHR 0x09] ?cells) \<subseteq> set [CHR 0x09] \<union> \<Union> (set ` set ?cells)"
    by (rule set_join)
  moreover have "CHR 0x0A \<notin> set [CHR 0x09] \<union> \<Union> (set ` set ?cells)"
    using all by (simp add: no_separator_def)
  ultimately show "CHR 0x0A \<notin> set (tsvRow ts r)"
    unfolding row by blast
qed

lemma header_line:
  "split_on CHR 0x09 (join [CHR 0x09] headers) = headers"
  "CHR 0x0A \<notin> set (join [CHR 0x09] headers)"
  "join [CHR 0x09] headers =
     ''File Name'' @ [CHR 0x09] @ ''Address'' @ [CHR 0x09] @ ''Latitude'' @ [CHR 0x09] @
     ''Longitude'' @ [CHR 0x09] @ ''Date'' @ [CHR 0x09] @ ''Time''"
  by (simp_all add: headers_def split_on_append_sep split_on_no_sep)

text \<open>
  C7, the claim as stated fails: the export replaces tabs and line breaks of an address by
  spaces and trims it, so two rows whose addresses differ only there are exported to the
  same text, and no reader can recover the address exactly.
\<close>

theorem export_loses_address_white_space:
  "address row_tabbed \<noteq> address row_spaced \<and>
   fileName row_tabbed = fileName row_spaced \<and>
   handleCopy toString_sample [row_tabbed] = handleCopy toString_sample [row_spaced] \<and>
   cleanAddress (address row_tabbed) = ''a b''"
proof -
  have c: "cleanAddress [CHR ''a'', CHR 0x09, CHR ''b''] = ''a b''"
    by (simp add: cleanAddress_def trim_def is_space_def)
  have d: "cleanAddress ''a b'' = ''a b''"
    by (simp add: cleanAddress_def trim_def is_space_def)
  show ?thesis
    by (simp add: row_tabbed_def row_spaced_def handleCopy_def tsvRow_def c d)
qed

text \<open>
  C7, as amended. Let the file names, dates and times of the rows hold no tab and no line
  feed, and let every coordinate be below \<open>10^21\<close> in absolute value. Then the exported
  block is, line by line, the header \<open>File Name, Address, Latitude, Longitude, Date, Time\<close>
  (tab-separated) followed by one line per row, in the order of the table; a coordinate
  that is \<open>null\<close> or 0 gives an empty cell; and reading the block back gives, for each row,
  its file name, date and time exactly (a missing date or time as the empty string), its
  address with tabs and line breaks replaced by spaces and trimmed, and each non-zero
  coordinate within \<open>0.0000005\<close> of its value, with the hemisphere letter of its sign.
\<close>

theorem export_round_trip:
  fixes ts :: "rat \<Rightarrow> string" and rows :: "ProcessedImage_ts list"
  assumes ok: "\<forall>r\<in>set rows.
      no_separator (fileName r) \<and> no_separator (or_empty (date r)) \<and>
      no_separator (or_empty (time r)) \<and>
      small_coordinate (latitude r) \<and> small_coordinate (longitude r)"
  shows "split_on CHR 0x0A (handleCopy ts rows) =
           (''File Name'' @ [CHR 0x09] @ ''Address'' @ [CHR 0x09] @ ''Latitude'' @ [CHR 0x09] @
            ''Longitude'' @ [CHR 0x09] @ ''Date'' @ [CHR 0x09] @ ''Time'') #
           map (tsvRow ts) rows \<and>
         (\<forall>r\<in>set rows.
            (latitude r = None \<or> latitude r = Some 0 \<longrightarrow>
               split_on CHR 0x09 (tsvRow ts r) ! 2 = []) \<and>
            (longitude r = None \<or> longitude r = Some 0 \<longrightarrow>
               split_on CHR 0x09 (tsvRow ts r) ! 3 = [])) \<and>
         (\<exists>parsed.
            spec_parse_tsv (handleCopy ts rows) = Some parsed \<and>
            length parsed = length rows \<and>
            (\<forall>i<length rows.
               p_fileName (parsed ! i) = fileName (rows ! i) \<and>
               p_address (parsed ! i) = cleanAddress (address (rows ! i)) \<and>
               p_date (parsed ! i) = or_empty (date (rows ! i)) \<and>
               p_time (parsed ! i) = or_empty (time (rows ! i)) \<and>
               coordinate_recovered (latitude (rows ! i)) Lat (p_latitude (parsed ! i)) \<and>
               coordinate_recovered (longitude (rows ! i)) Lng (p_longitude (parsed ! i))))"
proof (intro conjI ballI)
  let ?la = "\<lambda>r. if formatCoordinate ts (latitude r) Lat = ''--'' then []
                  else formatCoordinate ts (latitude r) Lat"
  let ?lo = "\<lambda>r. if formatCoordinate ts (longitude r) Lng = ''--'' then []
                  else formatCoordinate ts (longitude r) Lng"
  let ?g = "\<lambda>r. \<lparr>p_fileName = fileName r, p_address = cleanAddress (address r),
                  p_latitude = spec_parse_coordinate (?la r),
                  p_longitude = spec_parse_coordinate (?lo r),
                  p_date = or_empty (date r), p_time = or_empty (time r)\<rparr>"
  let ?lines = "join [CHR 0x09] headers # map (tsvRow ts) rows"
  have cells: "split_on CHR 0x09 (tsvRow ts r) =
      [fileName r, cleanAddress (address r), ?la r, ?lo r, or_empty (date r), or_empty (time r)]"
    and nl: "CHR 0x0A \<notin> set (tsvRow ts r)" if "r \<in> set rows" for r
    using tsvRow_cells [of r ts] ok that by blast+
  have "\<forall>x\<in>set ?lines. CHR 0x0A \<notin> set x"
    using nl header_line(2) by auto
  then have "split_on CHR 0x0A (join [CHR 0x0A] ?lines) = ?lines"
    by (intro split_on_join) simp_all
  then have lines: "split_on CHR 0x0A (handleCopy ts rows) = ?lines"
    by (simp add: handleCopy_def)
  then show "split_on CHR 0x0A (handleCopy ts rows) =
      (''File Name'' @ [CHR 0x09] @ ''Address'' @ [CHR 0x09] @ ''Latitude'' @ [CHR 0x09] @
       ''Longitude'' @ [CHR 0x09] @ ''Date'' @ [CHR 0x09] @ ''Time'') #
      map (tsvRow ts) rows"
    by (simp only: header_line(3))
  have row: "spec_parse_row (tsvRow ts r) = Some (?g r)" if "r \<in> set rows" for r
    by (simp add: spec_parse_row_def cells [OF that])
  then have "those (map spec_parse_row (map (tsvRow ts) rows)) = Some (map ?g rows)"
    by (simp add: those_map_Some o_def)
  then have parse: "spec_parse_tsv (handleCopy ts rows) = Some (map ?g rows)"
    by (simp add: spec_parse_tsv_def lines header_line(1))
  have rec: "coordinate_recovered (latitude r) Lat (spec_parse_coordinate (?la r)) \<and>
      coordinate_recovered (longitude r) Lng (spec_parse_coordinate (?lo r))"
    if "r \<in> set rows" for r
    using formatCoordinate_cell [of "latitude r" ts Lat]
      formatCoordinate_cell [of "longitude r" ts Lng] ok that by blast
  have "\<forall>i<length rows.
      p_fileName (map ?g rows ! i) = fileName (rows ! i) \<and>
      p_address (map ?g rows ! i) = cleanAddress (address (rows ! i)) \<and>
      p_date (map ?g rows ! i) = or_empty (date (rows ! i)) \<and>
      p_time (map ?g rows ! i) = or_empty (time (rows ! i)) \<and>
      coordinate_recovered (latitude (rows ! i)) Lat (p_latitude (map ?g rows ! i)) \<and>
      coordinate_recovered (longitude (rows ! i)) Lng (p_longitude (map ?g rows ! i))"
    using rec by simp
  then show "\<exists>parsed.
      spec_parse_tsv (handleCopy ts rows) = Some parsed \<and>
      length parsed = length rows \<and>
      (\<forall>i<length rows.
         p_fileName (parsed ! i) = fileName (rows ! i) \<and>
         p_address (parsed ! i) = cleanAddress (address (rows ! i)) \<and>
         p_date (parsed ! i) = or_empty (date (rows ! i)) \<and>
         p_time (parsed ! i) = or_empty (time (rows ! i)) \<and>
         coordinate_recovered (latitude (rows ! i)) Lat (p_latitude (parsed ! i)) \<and>
         coordinate_recovered (longitude (rows ! i)) Lng (p_longitude (parsed ! i)))"
    using parse by (intro exI [of _ "map ?g rows"]) simp
  fix r assume r: "r \<in> set rows"
  show "latitude r = None \<or> latitude r = Some 0 \<longrightarrow> split_on CHR 0x09 (tsvRow ts r) ! 2 = []"
    using formatCoordinate_cell [of "latitude r" ts Lat] ok r
    by (auto simp: cells [OF r])
  show "longitude r = None \<or> longitude r = Some 0 \<longrightarrow> split_on CHR 0x09 (tsvRow ts r) ! 3 = []"
    using formatCoordinate_cell [of "longitude r" ts Lng] ok r
    by (auto simp: cells [OF r])
qed

theorem export_round_trip_witness:
  "no_separator (fileName row_jakarta) \<and> small_coordinate (latitude row_jakarta) \<and>
   no_separator (or_empty (date row_unknown)) \<and> small_coordinate (longitude row_unknown) \<and>
   (\<exists>parsed.
      spec_parse_tsv (handleCopy toString_sample [row_jakarta, row_unknown]) = Some parsed \<and>
      length parsed = 2 \<and>
      p_fileName (parsed ! 0) = ''a.png'' \<and>
      p_address (parsed ! 0) = ''Jl. Sudirman'' \<and>
      p_date (parsed ! 0) = ''2024-05-01'' \<and>
      coordinate_recovered (Some (- 62088 / 10000)) Lat (p_latitude (parsed ! 0)) \<and>
      p_latitude (parsed ! 1) = None \<and>
      p_longitude (parsed ! 1) = None \<and>
      p_date (parsed ! 1) = [])"
proof -
  have a: "no_separator (fileName row_jakarta)" "small_coordinate (latitude row_jakarta)"
    "no_separator (or_empty (date row_unknown))" "small_coordinate (longitude row_unknown)"
    by (simp_all add: row_jakarta_def row_unknown_def no_separator_def or_empty_def
        small_coordinate_def)
  have ok: "\<forall>r\<in>set [row_jakarta, row_unknown].
      no_separator (fileName r) \<and> no_separator (or_empty (date r)) \<and>
      no_separator (or_empty (time r)) \<and>
      small_coordinate (latitude r) \<and> small_coordinate (longitude r)"
    by (simp add: row_jakarta_def row_unknown_def no_separator_def or_empty_def
        small_coordinate_def)
  have addr: "cleanAddress ''Jl. Sudirman'' = ''Jl. Sudirman''"
    by (simp add: cleanAddress_def trim_def is_space_def)
  from export_round_trip [OF ok, of toString_sample]
  obtain parsed where p:
    "spec_parse_tsv (handleCopy toString_sample [row_jakarta, row_unknown]) = Some parsed"
    "length parsed = length [row_jakarta, row_unknown]"
    "\<forall>i<length [row_jakarta, row_unknown].
       p_fileName (parsed ! i) = fileName ([row_jakarta, row_unknown] ! i) \<and>
       p_address (parsed ! i) = cleanAddress (address ([row_jakarta, row_unknown] ! i)) \<and>
       p_date (parsed ! i) = or_empty (date ([row_jakarta, row_unknown] ! i)) \<and>
       p_time (parsed ! i) = or_empty (time ([row_jakarta, row_unknown] ! i)) \<and>
       coordinate_recovered (latitude ([row_jakarta, row_unknown] ! i)) Lat
         (p_latitude (parsed ! i)) \<and>
       coordinate_recovered (longitude ([row_jakarta, row_unknown] ! i)) Lng
         (p_longitude (parsed ! i))"
    by blast
  from p(3) [rule_format, of 0]
  have r0: "p_fileName (parsed ! 0) = ''a.png''" "p_address (parsed ! 0) = ''Jl. Sudirman''"
    "p_date (parsed ! 0) = ''2024-05-01''"
    "coordinate_recovered (Some (- 62088 / 10000)) Lat (p_latitude (parsed ! 0))"
    by (simp_all add: row_jakarta_def addr or_empty_def)
  from p(3) [rule_format, of 1]
  have r1: "p_latitude (parsed ! 1) = None" "p_longitude (parsed ! 1) = None"
    "p_date (parsed ! 1) = []"
    by (simp_all add: row_unknown_def or_empty_def coordinate_recovered_def)
  from p(2) have len: "length parsed = 2"
    by simp
  from a p(1) len r0 r1 show ?thesis
    by blast
qed

end
